theory Spec2Isabelle
  imports Complex_Main "HOL-Library.Word"
begin

unbundle bit_operations_syntax

section \<open>Errors\<close>

text \<open>
  The driver reports failures by throwing: \<open>RDC_InvalidClientException\<close> (RDC_Types.h) and
  \<open>CAException\<close> carrying a status code. The status codes used by the modelled functions
  are \<open>kAudioHardwareIllegalOperationError\<close>, \<open>kAudioDeviceUnsupportedFormatError\<close>,
  \<open>kAudioHardwareUnspecifiedError\<close>, in \<open>WriteOutputData\<close> the ring buffer's own
  error code, and in \<open>RDC_TaskQueue::QueueSync\<close> the \<open>kern_return_t\<close> of a failed Mach
  call (\<open>RDC_Utils::ThrowIfMachError\<close>, RDC_Utils.h:168-172).
\<close>

datatype error =
    InvalidClient
  | IllegalOperation
  | UnsupportedFormat
  | Unspecified
  | RingBufferStatus int
  | MachError int

section \<open>RDC_Client\<close>

text \<open>
  RDC_Client.h. \<open>mClientID\<close> is a \<open>UInt32\<close>, \<open>mProcessID\<close> a \<open>pid_t\<close> (32 bits, only
  compared for equality here), \<open>mBundleID\<close> a \<open>CACFString\<close>, which wraps a string reference
  that may be \<open>NULL\<close>: \<open>None\<close> is the string for which \<open>IsValid()\<close> is false.
\<close>

record RDC_Client =
  mClientID :: "32 word"
  mProcessID :: "32 word"
  mIsNativeEndian :: bool
  mBundleID :: "string option"
  mDoingIO :: bool

text \<open>
  The client that \<open>std::map::operator[]\<close> inserts for a missing key: the mapped value is
  value-initialised, so the members without an initialiser are zero, and the default member
  initialisers of RDC_Client.h give \<open>mIsNativeEndian = true\<close> and \<open>mDoingIO = false\<close>.
\<close>

definition RDC_Client_default :: RDC_Client where
  "RDC_Client_default =
     \<lparr>mClientID = 0, mProcessID = 0, mIsNativeEndian = True, mBundleID = None, mDoingIO = False\<rparr>"

section \<open>RDC_ClientMap\<close>

text \<open>
  RDC_ClientMap.h. The maps by process ID and by bundle ID hold vectors of pointers to the
  clients stored in the map by client ID. A node of a \<open>std::map\<close> keeps its address until it is
  erased, and \<open>SwapInShadowMapsRT\<close> swaps the three maps of a side together, so a pointer held
  by a map of one side always refers to the node of the by-ID map of the same side that has the
  client's key. The model writes such a pointer as that key.
\<close>

type_synonym ClientPtr = "32 word"

record RDC_ClientMap =
  mClientMap :: "32 word \<rightharpoonup> RDC_Client"
  mClientMapShadow :: "32 word \<rightharpoonup> RDC_Client"
  mClientMapByPID :: "32 word \<rightharpoonup> ClientPtr list"
  mClientMapByPIDShadow :: "32 word \<rightharpoonup> ClientPtr list"
  mClientMapByBundleID :: "string \<rightharpoonup> ClientPtr list"
  mClientMapByBundleIDShadow :: "string \<rightharpoonup> ClientPtr list"
  mPastClientMap :: "string \<rightharpoonup> RDC_Client"

text \<open>The map as the constructor leaves it: every container empty.\<close>

definition RDC_ClientMap_new :: RDC_ClientMap where
  "RDC_ClientMap_new =
     \<lparr>mClientMap = Map.empty, mClientMapShadow = Map.empty,
      mClientMapByPID = Map.empty, mClientMapByPIDShadow = Map.empty,
      mClientMapByBundleID = Map.empty, mClientMapByBundleIDShadow = Map.empty,
      mPastClientMap = Map.empty\<rparr>"

text \<open>RDC_ClientMap.cpp:192-209: the three pairs of maps are swapped.\<close>

definition SwapInShadowMapsRT :: "RDC_ClientMap \<Rightarrow> RDC_ClientMap" where
  "SwapInShadowMapsRT m =
     m\<lparr>mClientMap := mClientMapShadow m, mClientMapShadow := mClientMap m,
       mClientMapByPID := mClientMapByPIDShadow m, mClientMapByPIDShadow := mClientMapByPID m,
       mClientMapByBundleID := mClientMapByBundleIDShadow m,
       mClientMapByBundleIDShadow := mClientMapByBundleID m\<rparr>"

text \<open>
  RDC_ClientMap.cpp:187-190 and RDC_TaskQueue.cpp:151-160, 195-255. \<open>SwapInShadowMaps\<close> hands
  \<open>SwapInShadowMapsRT\<close> to \<open>QueueSync\<close>, which pushes the task, signals the realtime worker
  and waits until the worker has completed the task. \<open>QueueSync\<close> ends in one of two ways,
  and which one is not decided by the caller, so the model takes it as a parameter.
  \<open>TaskCompleted\<close>: both Mach calls succeed and \<open>QueueSync\<close> returns after the worker has run
  the task. \<open>TaskFailed theError hasRun\<close>: \<open>semaphore_signal\<close> (line 211) or
  \<open>semaphore_timedwait\<close> (line 225) returns the error \<open>theError\<close>, other than a timeout, and
  \<open>ThrowIfMachError\<close> (lines 212, 238) throws it as a \<open>CAException\<close>; the task has been pushed
  before, so the worker may or may not have run it by then, which is \<open>hasRun\<close>.
  \<open>ThrowIfMachError\<close> is declared in RDC_Utils.h:168-172, which describes it as
  \<open>ThrowIfKernelError\<close> with logging; its body is not among the sources.

  The result of \<open>SwapInShadowMaps\<close> is the exception it throws, if any, and the map as the
  call leaves it.
\<close>

datatype QueueSync_outcome =
    TaskCompleted
  | TaskFailed int bool

definition SwapInShadowMaps ::
  "QueueSync_outcome \<Rightarrow> RDC_ClientMap \<Rightarrow> error option \<times> RDC_ClientMap" where
  "SwapInShadowMaps outcome m =
     (case outcome of
        TaskCompleted \<Rightarrow> (None, SwapInShadowMapsRT m)
      | TaskFailed theError hasRun \<Rightarrow>
          (Some (MachError theError), if hasRun then SwapInShadowMapsRT m else m))"

text \<open>\<open>map[key].push_back(p)\<close>: \<open>operator[]\<close> inserts an empty vector for a missing key.\<close>

definition push_back :: "('k \<rightharpoonup> 'a list) \<Rightarrow> 'k \<Rightarrow> 'a \<Rightarrow> ('k \<rightharpoonup> 'a list)" where
  "push_back m k p = m(k \<mapsto> (case m k of None \<Rightarrow> [] | Some ps \<Rightarrow> ps) @ [p])"

text \<open>
  RDC_ClientMap.cpp:59-79. The throw comes before the first write, so the map at the throw is
  the argument.
\<close>

definition AddClientToShadowMaps :: "RDC_Client \<Rightarrow> RDC_ClientMap \<Rightarrow> error + RDC_ClientMap" where
  "AddClientToShadowMaps inClient m =
     (if mClientMapShadow m (mClientID inClient) \<noteq> None then Inl InvalidClient
      else
        let m1 = m\<lparr>mClientMapShadow := (mClientMapShadow m)(mClientID inClient \<mapsto> inClient)\<rparr>;
            m2 = m1\<lparr>mClientMapByPIDShadow :=
                      push_back (mClientMapByPIDShadow m1) (mProcessID inClient) (mClientID inClient)\<rparr>
        in Inr (case mBundleID inClient of
                  None \<Rightarrow> m2
                | Some b \<Rightarrow> m2\<lparr>mClientMapByBundleIDShadow :=
                                  push_back (mClientMapByBundleIDShadow m2) b (mClientID inClient)\<rparr>))"

text \<open>
  RDC_ClientMap.cpp:36-57, for either outcome of the queue. The result pairs what the call
  returned or threw with the map it left behind. An exception of \<open>SwapInShadowMaps\<close> leaves
  the function at line 44, after the shadow maps have been written; nothing catches it or undoes
  the write.
\<close>

definition AddClient_queued ::
  "QueueSync_outcome \<Rightarrow> RDC_Client \<Rightarrow> RDC_ClientMap \<Rightarrow> (error + unit) \<times> RDC_ClientMap" where
  "AddClient_queued outcome inClient m =
     (case AddClientToShadowMaps inClient m of
        Inl e \<Rightarrow> (Inl e, m)
      | Inr m1 \<Rightarrow>
          (case SwapInShadowMaps outcome m1 of
             (Some e, m2) \<Rightarrow> (Inl e, m2)
           | (None, m2) \<Rightarrow>
               (case AddClientToShadowMaps inClient m2 of
                  Inl e \<Rightarrow> (Inl e, m2)
                | Inr m3 \<Rightarrow>
                    (Inr (),
                     case mBundleID inClient of
                       None \<Rightarrow> m3
                     | Some b \<Rightarrow> m3\<lparr>mPastClientMap := (mPastClientMap m3)(b \<mapsto> inClient)\<rparr>))))"

text \<open>
  \<open>AddClient\<close> in which the task queue completes the swap, so that \<open>SwapInShadowMaps\<close>
  returns.
\<close>

definition AddClient :: "RDC_Client \<Rightarrow> RDC_ClientMap \<Rightarrow> (error + unit) \<times> RDC_ClientMap" where
  "AddClient inClient m = AddClient_queued TaskCompleted inClient m"

text \<open>
  The three erasures of RDC_ClientMap.cpp:95-100, repeated at 106-111: the client's key leaves
  the shadow map by ID, the whole entry of its process ID leaves the shadow map by PID, and the
  whole entry of its bundle ID leaves \<open>mClientMapByBundleID\<close>, the map that is not the shadow.
\<close>

definition EraseClient :: "32 word \<Rightarrow> RDC_Client \<Rightarrow> RDC_ClientMap \<Rightarrow> RDC_ClientMap" where
  "EraseClient inClientID theClient m =
     (let m1 = m\<lparr>mClientMapShadow := (mClientMapShadow m)(inClientID := None)\<rparr>;
          m2 = m1\<lparr>mClientMapByPIDShadow := (mClientMapByPIDShadow m1)(mProcessID theClient := None)\<rparr>
      in case mBundleID theClient of
           None \<Rightarrow> m2
         | Some b \<Rightarrow> m2\<lparr>mClientMapByBundleID := (mClientMapByBundleID m2)(b := None)\<rparr>)"

text \<open>
  RDC_ClientMap.cpp:81-114, for either outcome of the queue. An exception of \<open>SwapInShadowMaps\<close>
  leaves the function at line 103, after the first three erasures.
\<close>

definition RemoveClient_queued ::
  "QueueSync_outcome \<Rightarrow> 32 word \<Rightarrow> RDC_ClientMap \<Rightarrow> (error + RDC_Client) \<times> RDC_ClientMap" where
  "RemoveClient_queued outcome inClientID m =
     (case mClientMapShadow m inClientID of
        None \<Rightarrow> (Inl InvalidClient, m)
      | Some theClient \<Rightarrow>
          let m1 = EraseClient inClientID theClient m in
          (case SwapInShadowMaps outcome m1 of
             (Some e, m2) \<Rightarrow> (Inl e, m2)
           | (None, m2) \<Rightarrow> (Inr theClient, EraseClient inClientID theClient m2)))"

text \<open>\<open>RemoveClient\<close> in which the task queue completes the swap.\<close>

definition RemoveClient :: "32 word \<Rightarrow> RDC_ClientMap \<Rightarrow> (error + RDC_Client) \<times> RDC_ClientMap" where
  "RemoveClient inClientID m = RemoveClient_queued TaskCompleted inClientID m"

text \<open>
  \<open>mClientMapShadow[inClientID].mDoingIO = inDoingIO\<close>: \<open>operator[]\<close> inserts a
  value-initialised client for a missing key and the flag is then written in place.
\<close>

definition SetDoingIOInShadow :: "32 word \<Rightarrow> bool \<Rightarrow> RDC_ClientMap \<Rightarrow> RDC_ClientMap" where
  "SetDoingIOInShadow inClientID inDoingIO m =
     m\<lparr>mClientMapShadow :=
         (mClientMapShadow m)(inClientID \<mapsto>
            (case mClientMapShadow m inClientID of
               None \<Rightarrow> RDC_Client_default
             | Some c \<Rightarrow> c)\<lparr>mDoingIO := inDoingIO\<rparr>)\<rparr>"

text \<open>
  RDC_ClientMap.cpp:178-185, for either outcome of the queue. Nothing but \<open>SwapInShadowMaps\<close>
  throws in it.
\<close>

definition UpdateClientIOStateNonRT_queued ::
  "QueueSync_outcome \<Rightarrow> 32 word \<Rightarrow> bool \<Rightarrow> RDC_ClientMap \<Rightarrow> (error + unit) \<times> RDC_ClientMap" where
  "UpdateClientIOStateNonRT_queued outcome inClientID inDoingIO m =
     (let m1 = SetDoingIOInShadow inClientID inDoingIO m in
      (case SwapInShadowMaps outcome m1 of
         (Some e, m2) \<Rightarrow> (Inl e, m2)
       | (None, m2) \<Rightarrow> (Inr (), SetDoingIOInShadow inClientID inDoingIO m2)))"

text \<open>\<open>UpdateClientIOStateNonRT\<close> in which the task queue completes the swap.\<close>

definition UpdateClientIOStateNonRT ::
  "32 word \<Rightarrow> bool \<Rightarrow> RDC_ClientMap \<Rightarrow> (error + unit) \<times> RDC_ClientMap" where
  "UpdateClientIOStateNonRT inClientID inDoingIO m =
     UpdateClientIOStateNonRT_queued TaskCompleted inClientID inDoingIO m"

text \<open>RDC_ClientMap.h:103-104.\<close>

definition ClientMap_StartIONonRT :: "32 word \<Rightarrow> RDC_ClientMap \<Rightarrow> (error + unit) \<times> RDC_ClientMap" where
  "ClientMap_StartIONonRT inClientID m = UpdateClientIOStateNonRT inClientID True m"

definition ClientMap_StopIONonRT :: "32 word \<Rightarrow> RDC_ClientMap \<Rightarrow> (error + unit) \<times> RDC_ClientMap" where
  "ClientMap_StopIONonRT inClientID m = UpdateClientIOStateNonRT inClientID False m"

text \<open>RDC_ClientMap.cpp:116-140: the realtime getter reads the main map, the other the shadow.\<close>

definition GetClientRT :: "32 word \<Rightarrow> RDC_ClientMap \<Rightarrow> RDC_Client option" where
  "GetClientRT inClientID m = mClientMap m inClientID"

definition GetClientNonRT :: "32 word \<Rightarrow> RDC_ClientMap \<Rightarrow> RDC_Client option" where
  "GetClientNonRT inClientID m = mClientMapShadow m inClientID"

text \<open>
  RDC_ClientMap.cpp:142-159: the clients of a process, read through the pointers of the shadow
  map by PID. A pointer is followed into the shadow map by ID; the result is \<open>None\<close> where a
  pointer's client has been erased, which in the source is a read through a dangling pointer.
\<close>

definition GetClientsByPID :: "32 word \<Rightarrow> RDC_ClientMap \<Rightarrow> RDC_Client option list" where
  "GetClientsByPID inPID m =
     (case mClientMapByPIDShadow m inPID of
        None \<Rightarrow> []
      | Some ptrs \<Rightarrow> map (mClientMapShadow m) ptrs)"

subsection \<open>Sequences of mutator calls\<close>

datatype ClientMap_call =
    Call_AddClient RDC_Client
  | Call_RemoveClient "32 word"
  | Call_StartIONonRT "32 word"
  | Call_StopIONonRT "32 word"

text \<open>The map a call leaves behind, whether it returned or threw.\<close>

fun ClientMap_after :: "RDC_ClientMap \<Rightarrow> ClientMap_call \<Rightarrow> RDC_ClientMap" where
  "ClientMap_after m (Call_AddClient c) = snd (AddClient c m)"
| "ClientMap_after m (Call_RemoveClient k) = snd (RemoveClient k m)"
| "ClientMap_after m (Call_StartIONonRT k) = snd (ClientMap_StartIONonRT k m)"
| "ClientMap_after m (Call_StopIONonRT k) = snd (ClientMap_StopIONonRT k m)"

definition ClientMap_run :: "ClientMap_call list \<Rightarrow> RDC_ClientMap" where
  "ClientMap_run calls = foldl ClientMap_after RDC_ClientMap_new calls"

text \<open>The maps are at rest when each main map equals its shadow.\<close>

definition maps_identical :: "RDC_ClientMap \<Rightarrow> bool" where
  "maps_identical m \<longleftrightarrow>
     mClientMap m = mClientMapShadow m \<and>
     mClientMapByPID m = mClientMapByPIDShadow m \<and>
     mClientMapByBundleID m = mClientMapByBundleIDShadow m"

subsection \<open>Pointers of the maps by process ID and by bundle ID\<close>

text \<open>
  Every pointer of an index refers to a client that is in the map by ID and has the index's
  key: no pointer dangles. Stated for the shadow side; at rest the main side is equal.
\<close>

definition index_valid ::
  "('k \<rightharpoonup> ClientPtr list) \<Rightarrow> (32 word \<rightharpoonup> RDC_Client) \<Rightarrow> (RDC_Client \<Rightarrow> 'k option) \<Rightarrow> bool" where
  "index_valid idx byID key \<longleftrightarrow>
     (\<forall>p ps k. idx p = Some ps \<and> k \<in> set ps \<longrightarrow> (\<exists>c. byID k = Some c \<and> key c = Some p))"

definition pointers_valid :: "RDC_ClientMap \<Rightarrow> bool" where
  "pointers_valid m \<longleftrightarrow>
     index_valid (mClientMapByPIDShadow m) (mClientMapShadow m) (\<lambda>c. Some (mProcessID c)) \<and>
     index_valid (mClientMapByBundleIDShadow m) (mClientMapShadow m) mBundleID"

subsection \<open>Example clients and maps\<close>

definition example_client_1 :: RDC_Client where
  "example_client_1 =
     \<lparr>mClientID = 1, mProcessID = 100, mIsNativeEndian = True, mBundleID = Some ''a'', mDoingIO = False\<rparr>"

definition example_client_2 :: RDC_Client where
  "example_client_2 =
     \<lparr>mClientID = 2, mProcessID = 100, mIsNativeEndian = True, mBundleID = Some ''a'', mDoingIO = False\<rparr>"

definition example_map_1 :: RDC_ClientMap where
  "example_map_1 = snd (AddClient example_client_1 RDC_ClientMap_new)"

section \<open>RDC_Clients\<close>

text \<open>
  RDC_Clients.h. The member \<open>mClientMap\<close> of the class is written \<open>mClients_ClientMap\<close>.
  \<open>mStartCount\<close> is a \<open>UInt64\<close>.
\<close>

record RDC_Clients =
  mClients_ClientMap :: RDC_ClientMap
  mStartCount :: "64 word"

definition RDC_Clients_new :: RDC_Clients where
  "RDC_Clients_new = \<lparr>mClients_ClientMap = RDC_ClientMap_new, mStartCount = 0\<rparr>"

definition UINT64_MAX :: "64 word" where
  "UINT64_MAX = - 1"

text \<open>RDC_Clients.cpp:47-59.\<close>

definition Clients_AddClient :: "RDC_Client \<Rightarrow> RDC_Clients \<Rightarrow> (error + unit) \<times> RDC_Clients" where
  "Clients_AddClient inClient s =
     (case AddClient inClient (mClients_ClientMap s) of
        (r, m) \<Rightarrow> (r, s\<lparr>mClients_ClientMap := m\<rparr>))"

definition Clients_RemoveClient :: "32 word \<Rightarrow> RDC_Clients \<Rightarrow> (error + unit) \<times> RDC_Clients" where
  "Clients_RemoveClient inClientID s =
     (case RemoveClient inClientID (mClients_ClientMap s) of
        (Inl e, m) \<Rightarrow> (Inl e, s\<lparr>mClients_ClientMap := m\<rparr>)
      | (Inr theClient, m) \<Rightarrow> (Inr (), s\<lparr>mClients_ClientMap := m\<rparr>))"

text \<open>
  RDC_Clients.cpp:63-98. The result is \<open>didStartIO\<close>. When it is true the function also
  dispatches a property notification to a serial queue, which changes nothing in
  \<open>RDC_Clients\<close>.
\<close>

definition Clients_StartIONonRT :: "32 word \<Rightarrow> RDC_Clients \<Rightarrow> (error + bool) \<times> RDC_Clients" where
  "Clients_StartIONonRT inClientID s =
     (case GetClientNonRT inClientID (mClients_ClientMap s) of
        None \<Rightarrow> (Inl InvalidClient, s)
      | Some theClient \<Rightarrow>
          if \<not> mDoingIO theClient then
            if mStartCount s = UINT64_MAX then (Inl IllegalOperation, s)
            else
              (case ClientMap_StartIONonRT inClientID (mClients_ClientMap s) of
                 (Inl e, m) \<Rightarrow> (Inl e, s\<lparr>mClients_ClientMap := m\<rparr>)
               | (Inr u, m) \<Rightarrow>
                   let s1 = s\<lparr>mClients_ClientMap := m\<rparr>;
                       s2 = s1\<lparr>mStartCount := mStartCount s1 + 1\<rparr>
                   in (Inr (mStartCount s2 = 1), s2))
          else (Inr False, s))"


text \<open>RDC_Clients.cpp:136-139.\<close>

definition ClientsRunningIO :: "RDC_Clients \<Rightarrow> bool" where
  "ClientsRunningIO s \<longleftrightarrow> mStartCount s > 0"

subsection \<open>Example states of RDC_Clients\<close>

definition example_clients_1 :: RDC_Clients where
  "example_clients_1 = snd (Clients_AddClient example_client_1 RDC_Clients_new)"


definition example_clients_full :: RDC_Clients where
  "example_clients_full = example_clients_1\<lparr>mStartCount := UINT64_MAX\<rparr>"

section \<open>CARingBuffer\<close>




definition kGeneralRingTimeBoundsQueueSize :: nat where
  "kGeneralRingTimeBoundsQueueSize = 32"

definition kGeneralRingTimeBoundsQueueMask :: nat where
  "kGeneralRingTimeBoundsQueueMask = kGeneralRingTimeBoundsQueueSize - 1"

record TimeBounds =
  mStartTime :: int
  mEndTime :: int
  mUpdateCounter :: "32 word"

record CARingBuffer =
  mBuffers :: "8 word list"
  mNumberChannels :: int
  mBytesPerFrame :: nat
  mCapacityFrames :: nat
  mCapacityFramesMask :: nat
  mCapacityBytes :: nat
  mTimeBoundsQueue :: "TimeBounds list"
  mTimeBoundsQueuePtr :: "32 word"

text \<open>
  CARingBuffer.h:49. The mask and the bytes per frame are extended to 64 bits for the
  conjunction and the product; the function returns a \<open>UInt32\<close>, so the product is cut to
  32 bits.
\<close>

definition FrameOffset :: "CARingBuffer \<Rightarrow> int \<Rightarrow> nat" where
  "FrameOffset rb frameNumber =
     (nat (frameNumber AND int (mCapacityFramesMask rb)) * mBytesPerFrame rb) mod 2 ^ 32"

text \<open>
  Modelled from the spec: the body of \<open>Allocate\<close> (CARingBuffer.cpp is not among the sources).
  The capacity is rounded up to the next power of two.
\<close>

function NextPowerOfTwoFrom :: "nat \<Rightarrow> nat \<Rightarrow> nat" where
  "NextPowerOfTwoFrom p n = (if p = 0 \<or> n \<le> p then p else NextPowerOfTwoFrom (2 * p) n)"
  by pat_completeness auto
termination
  by (relation "measure (\<lambda>(p, n). n - p)") auto

declare NextPowerOfTwoFrom.simps [simp del]

text \<open>
  Modelled from the spec: the rounding of \<open>Allocate\<close>, "rounds \<open>capacityFrames\<close> up to a power
  of two": the least power of two that is not below the requested capacity.
\<close>

definition NextPowerOfTwo :: "nat \<Rightarrow> nat" where
  "NextPowerOfTwo n = NextPowerOfTwoFrom 1 n"

text \<open>
  Modelled from the spec: \<open>Allocate\<close> (section 4.1) rounds the capacity up to a power of two,
  allocates the backing storage, sets every slot of time bounds to \<open>(0, 0, 0)\<close> and the
  sequence counter to 0. The storage is written as zero bytes; the spec leaves its first
  contents open.
\<close>

definition Allocate :: "int \<Rightarrow> nat \<Rightarrow> nat \<Rightarrow> CARingBuffer" where
  "Allocate nChannels bytesPerFrame capacityFrames =
     (let cap = NextPowerOfTwo capacityFrames in
      \<lparr>mBuffers = replicate (cap * bytesPerFrame) 0,
       mNumberChannels = nChannels,
       mBytesPerFrame = bytesPerFrame,
       mCapacityFrames = cap,
       mCapacityFramesMask = cap - 1,
       mCapacityBytes = cap * bytesPerFrame,
       mTimeBoundsQueue =
         replicate kGeneralRingTimeBoundsQueueSize \<lparr>mStartTime = 0, mEndTime = 0, mUpdateCounter = 0\<rparr>,
       mTimeBoundsQueuePtr = 0\<rparr>)"




text \<open>
  Modelled from the spec: copying into and out of the backing storage "wrapping across the end
  of the region as needed". The byte at distance \<open>i\<close> from the offset lives at
  \<open>(offset + i) mod length buf\<close>.
\<close>

fun StoreBytes :: "8 word list \<Rightarrow> nat \<Rightarrow> 8 word list \<Rightarrow> 8 word list" where
  "StoreBytes buf off [] = buf"
| "StoreBytes buf off (x # xs) = StoreBytes (buf[off mod length buf := x]) (Suc off) xs"

text \<open>
  Modelled from the spec: the copy out of the backing storage (Fetch, step 4), wrapping in the
  same way.
\<close>

definition FetchBytes :: "8 word list \<Rightarrow> nat \<Rightarrow> nat \<Rightarrow> 8 word list" where
  "FetchBytes buf off n = map (\<lambda>i. buf ! ((off + i) mod length buf)) [0..<n]"



text \<open>
  The ring buffers the round trip is stated for: the capacity is a power of two with its mask,
  the storage has the size of the capacity, which fits the \<open>UInt32\<close> of \<open>mCapacityBytes\<close>, the
  queue has its 32 slots, the slot of the sequence counter carries that counter (so a read of
  the bounds succeeds), and the published bounds span at most the capacity.
\<close>

definition ring_buffer_wf :: "CARingBuffer \<Rightarrow> bool" where
  "ring_buffer_wf rb \<longleftrightarrow>
     (\<exists>k. mCapacityFrames rb = 2 ^ k) \<and>
     mCapacityFramesMask rb = mCapacityFrames rb - 1 \<and>
     length (mBuffers rb) = mCapacityFrames rb * mBytesPerFrame rb \<and>
     mCapacityFrames rb * mBytesPerFrame rb < 2 ^ 32 \<and>
     length (mTimeBoundsQueue rb) = kGeneralRingTimeBoundsQueueSize \<and>
     mUpdateCounter
       (mTimeBoundsQueue rb ! (unat (mTimeBoundsQueuePtr rb) mod kGeneralRingTimeBoundsQueueSize)) =
       mTimeBoundsQueuePtr rb \<and>
     mStartTime
       (mTimeBoundsQueue rb ! (unat (mTimeBoundsQueuePtr rb) mod kGeneralRingTimeBoundsQueueSize))
       \<le> mEndTime
       (mTimeBoundsQueue rb ! (unat (mTimeBoundsQueuePtr rb) mod kGeneralRingTimeBoundsQueueSize)) \<and>
     mEndTime
       (mTimeBoundsQueue rb ! (unat (mTimeBoundsQueuePtr rb) mod kGeneralRingTimeBoundsQueueSize))
       - mStartTime
       (mTimeBoundsQueue rb ! (unat (mTimeBoundsQueuePtr rb) mod kGeneralRingTimeBoundsQueueSize))
       \<le> int (mCapacityFrames rb)"

subsection \<open>Example ring buffers\<close>






section \<open>RDC_Device\<close>

subsection \<open>Float64\<close>

text \<open>
  \<open>Float64\<close> is the IEEE 754 binary64 format. A finite \<open>Float64\<close> is written as the real
  number it stands for, so comparisons are those of the reals. An arithmetic operation, and
  the conversion of an integer, gives the exact result rounded to the nearest \<open>Float64\<close>, a
  tie going to the neighbour with the even significand; every operation of the source is
  rounded on its own. For \<open>2^e \<le> \<bar>x\<bar> < 2^(e+1)\<close> the \<open>Float64\<close>s around \<open>x\<close> are the multiples of
  \<open>2^(e-52)\<close>: \<open>Float64_round\<close> rounds \<open>x\<close> to the nearest of them. The bounds of the exponent
  (infinities from \<open>2^1024\<close>, subnormal numbers below \<open>2^-1022\<close>) and NaN are not modelled.
\<close>

definition round_half_even :: "real \<Rightarrow> int" where
  "round_half_even y =
     (let f = \<lfloor>y\<rfloor> in
      if y - real_of_int f < 1 / 2 then f
      else if 1 / 2 < y - real_of_int f then f + 1
      else if even f then f else f + 1)"

definition Float64_round :: "real \<Rightarrow> real" where
  "Float64_round x =
     (if x = 0 then 0
      else
        let e = \<lfloor>log 2 \<bar>x\<bar>\<rfloor>;
            ulp = 2 powr (real_of_int e - 52)
        in real_of_int (round_half_even (x / ulp)) * ulp)"

definition Float64_add :: "real \<Rightarrow> real \<Rightarrow> real" where
  "Float64_add x y = Float64_round (x + y)"

definition Float64_mul :: "real \<Rightarrow> real \<Rightarrow> real" where
  "Float64_mul x y = Float64_round (x * y)"

definition Float64_div :: "real \<Rightarrow> real \<Rightarrow> real" where
  "Float64_div x y = Float64_round (x / y)"

text \<open>
  \<open>static_cast<UInt64>\<close> of a \<open>Float64\<close> drops the fraction; the values converted here are
  not negative. \<open>static_cast<Float64>\<close> of a \<open>UInt64\<close> rounds its value, which changes it
  only above \<open>2^53\<close>.
\<close>

definition UInt64_of_Float64 :: "real \<Rightarrow> 64 word" where
  "UInt64_of_Float64 x = word_of_int \<lfloor>x\<rfloor>"

definition Float64_of_UInt64 :: "64 word \<Rightarrow> real" where
  "Float64_of_UInt64 w = Float64_round (real (unat w))"

subsection \<open>The device\<close>

text \<open>
  Modelled from the spec: \<open>kLoopbackRingBufferFrameSize\<close> is declared in RDC_Device.h, which
  is not among the sources. Section 6 gives the ring buffer size as a power of two and suggests
  16384.
\<close>

definition kLoopbackRingBufferFrameSize :: nat where
  "kLoopbackRingBufferFrameSize = 16384"

text \<open>
  Modelled from the spec: \<open>kSampleRateDefault\<close> is declared in RDC_Device.h, which is not among
  the sources. Section 6 gives the default sample rate as 44100 Hz.
\<close>

definition kSampleRateDefault :: real where
  "kSampleRateDefault = 44100"

text \<open>
  Modelled from the spec: the members of the loopback clock (the device state of section 3),
  declared in RDC_Device.h. Their types are read off their uses in RDC_Device.cpp: the ticks
  per frame are a \<open>Float64\<close>, the count of time stamps and the anchor are \<open>UInt64\<close>.
\<close>

record LoopbackTime =
  hostTicksPerFrame :: real
  numberTimeStamps :: "64 word"
  anchorHostTime :: "64 word"

text \<open>
  The members of \<open>RDC_Device\<close> that the modelled functions use. \<open>mWrappedAudioEngine\<close> is set to
  \<open>nullptr\<close> by the constructor and never assigned, so the branches for a wrapped engine are
  not taken. Of each stream only the sample rate it was last given is kept.
\<close>

record RDC_Device =
  mLoopbackSampleRate :: real
  mPendingSampleRate :: real
  mLoopbackTime :: LoopbackTime
  mLoopbackRingBuffer :: CARingBuffer
  mInputStream_SampleRate :: real
  mOutputStream_SampleRate :: real

text \<open>
  RDC_Device.cpp:170-180. The host clock frequency, a \<open>Float64\<close>, is a parameter; the ticks
  per frame are the \<open>Float64\<close> quotient.
\<close>

definition InitLoopback :: "real \<Rightarrow> RDC_Device \<Rightarrow> RDC_Device" where
  "InitLoopback hostFrequency d =
     d\<lparr>mLoopbackTime :=
         (mLoopbackTime d)\<lparr>hostTicksPerFrame := Float64_div hostFrequency (mLoopbackSampleRate d)\<rparr>,
       mLoopbackRingBuffer := Allocate 1 (2 * 4) kLoopbackRingBufferFrameSize\<rparr>"

text \<open>RDC_Device.cpp:1233-1252.\<close>

definition GetSampleRate :: "RDC_Device \<Rightarrow> real" where
  "GetSampleRate d = mLoopbackSampleRate d"

text \<open>
  RDC_Device.cpp:1254-1281. The result says whether a configuration change was requested from
  the host.
\<close>

definition RequestSampleRate :: "real \<Rightarrow> RDC_Device \<Rightarrow> (error + bool) \<times> RDC_Device" where
  "RequestSampleRate inRequestedSampleRate d =
     (if inRequestedSampleRate < 1.0 then (Inl UnsupportedFormat, d)
      else if inRequestedSampleRate \<noteq> GetSampleRate d then
        (Inr True, d\<lparr>mPendingSampleRate := inRequestedSampleRate\<rparr>)
      else (Inr False, d))"

text \<open>RDC_Device.cpp:1378-1417.\<close>

definition SetSampleRate :: "real \<Rightarrow> real \<Rightarrow> bool \<Rightarrow> RDC_Device \<Rightarrow> (error + unit) \<times> RDC_Device" where
  "SetSampleRate hostFrequency inSampleRate force d =
     (if inSampleRate < 1.0 then (Inl UnsupportedFormat, d)
      else
        let theCurrentSampleRate = GetSampleRate d in
        if inSampleRate \<noteq> theCurrentSampleRate \<or> force then
          let d1 = d\<lparr>mLoopbackSampleRate := inSampleRate\<rparr>;
              d2 = InitLoopback hostFrequency d1;
              d3 = d2\<lparr>mInputStream_SampleRate := inSampleRate\<rparr>;
              d4 = d3\<lparr>mOutputStream_SampleRate := inSampleRate\<rparr>
          in (Inr (), d4)
        else (Inr (), d))"

text \<open>
  RDC_Device.cpp:95-119: the constructor gives both streams the default sample rate and calls
  \<open>SetSampleRate(kSampleRateDefault, true)\<close>. The argument holds the members as they are
  before the constructor's body runs.
\<close>

definition RDC_Device_new :: "real \<Rightarrow> RDC_Device \<Rightarrow> RDC_Device" where
  "RDC_Device_new hostFrequency d0 =
     snd (SetSampleRate hostFrequency kSampleRateDefault True
            (d0\<lparr>mInputStream_SampleRate := kSampleRateDefault,
                mOutputStream_SampleRate := kSampleRateDefault\<rparr>))"

text \<open>RDC_Device.cpp:1436-1451. The current host time is a parameter.\<close>

definition HW_StartIO :: "64 word \<Rightarrow> RDC_Device \<Rightarrow> RDC_Device" where
  "HW_StartIO theCurrentHostTime d =
     d\<lparr>mLoopbackTime :=
         (mLoopbackTime d)\<lparr>numberTimeStamps := 0, anchorHostTime := theCurrentHostTime\<rparr>\<rparr>"

text \<open>
  RDC_Device.cpp:965-1001, the branch without a wrapped engine. The current host time is a
  parameter. The result is \<open>(outSampleTime, outHostTime, outSeed)\<close> and the device with the
  updated clock. The products and the sum of lines 985, 986 and 997 are \<open>Float64\<close> operations,
  the sum of line 987 and the product of line 996 are \<open>UInt64\<close> operations, and the
  integers that meet a \<open>Float64\<close> are converted first.
\<close>

definition GetZeroTimeStamp ::
  "64 word \<Rightarrow> RDC_Device \<Rightarrow> (real \<times> 64 word \<times> 64 word) \<times> RDC_Device" where
  "GetZeroTimeStamp theCurrentHostTime d =
     (let lt = mLoopbackTime d;
          theHostTicksPerRingBuffer =
            Float64_mul (hostTicksPerFrame lt) (real kLoopbackRingBufferFrameSize);
          theHostTickOffset =
            Float64_mul (Float64_of_UInt64 (numberTimeStamps lt + 1)) theHostTicksPerRingBuffer;
          theNextHostTime = anchorHostTime lt + UInt64_of_Float64 theHostTickOffset;
          lt1 = (if theNextHostTime \<le> theCurrentHostTime
                 then lt\<lparr>numberTimeStamps := numberTimeStamps lt + 1\<rparr> else lt);
          outSampleTime =
            Float64_of_UInt64 (numberTimeStamps lt1 * of_nat kLoopbackRingBufferFrameSize);
          outHostTime =
            UInt64_of_Float64
              (Float64_add (Float64_of_UInt64 (anchorHostTime lt1))
                 (Float64_mul (Float64_of_UInt64 (numberTimeStamps lt1)) theHostTicksPerRingBuffer));
          outSeed = 1
      in ((outSampleTime, outHostTime, outSeed), d\<lparr>mLoopbackTime := lt1\<rparr>))"

subsection \<open>Reading from and writing to the ring buffer\<close>






subsection \<open>Example devices\<close>

definition example_raw_device :: RDC_Device where
  "example_raw_device =
     \<lparr>mLoopbackSampleRate = 0, mPendingSampleRate = 0,
      mLoopbackTime = \<lparr>hostTicksPerFrame = 0, numberTimeStamps = 0, anchorHostTime = 0\<rparr>,
      mLoopbackRingBuffer = Allocate 1 8 0,
      mInputStream_SampleRate = 0, mOutputStream_SampleRate = 0\<rparr>"

definition example_device :: RDC_Device where
  "example_device = RDC_Device_new 1000000000 example_raw_device"

text \<open>
  The device at 48000 Hz on a host clock of \<open>10^9\<close> ticks per second, with IO started at
  time 0 and two time stamps counted.
\<close>

definition example_48k_device :: RDC_Device where
  "example_48k_device =
     (let d = HW_StartIO 0 (snd (SetSampleRate 1000000000 48000 False example_device))
      in d\<lparr>mLoopbackTime := (mLoopbackTime d)\<lparr>numberTimeStamps := 2\<rparr>\<rparr>)"

text \<open>The device at its default rate on a host clock of \<open>10^9\<close> ticks per second, with IO started at time 0.\<close>

definition example_default_running_device :: RDC_Device where
  "example_default_running_device = HW_StartIO 0 example_device"




section \<open>The mutators when the task queue completes the swap\<close>

lemma AddClient_unfold:
  "AddClient inClient m =
     (case AddClientToShadowMaps inClient m of
        Inl e \<Rightarrow> (Inl e, m)
      | Inr m1 \<Rightarrow>
          let m2 = SwapInShadowMapsRT m1 in
          (case AddClientToShadowMaps inClient m2 of
             Inl e \<Rightarrow> (Inl e, m2)
           | Inr m3 \<Rightarrow>
               (Inr (),
                case mBundleID inClient of
                  None \<Rightarrow> m3
                | Some b \<Rightarrow> m3\<lparr>mPastClientMap := (mPastClientMap m3)(b \<mapsto> inClient)\<rparr>)))"
  by (simp add: AddClient_def AddClient_queued_def SwapInShadowMaps_def Let_def split: sum.splits)

lemma RemoveClient_unfold:
  "RemoveClient inClientID m =
     (case mClientMapShadow m inClientID of
        None \<Rightarrow> (Inl InvalidClient, m)
      | Some theClient \<Rightarrow>
          let m1 = EraseClient inClientID theClient m;
              m2 = SwapInShadowMapsRT m1;
              m3 = EraseClient inClientID theClient m2
          in (Inr theClient, m3))"
  by (simp add: RemoveClient_def RemoveClient_queued_def SwapInShadowMaps_def Let_def
      split: option.splits)

lemma UpdateClientIOStateNonRT_unfold:
  "UpdateClientIOStateNonRT inClientID inDoingIO m =
     (let m1 = SetDoingIOInShadow inClientID inDoingIO m;
          m2 = SwapInShadowMapsRT m1;
          m3 = SetDoingIOInShadow inClientID inDoingIO m2
      in (Inr (), m3))"
  by (simp add: UpdateClientIOStateNonRT_def UpdateClientIOStateNonRT_queued_def
      SwapInShadowMaps_def Let_def)

section \<open>The shadow maps stay identical to the main maps\<close>

lemma maps_identical_new: "maps_identical RDC_ClientMap_new"
  by (simp add: maps_identical_def RDC_ClientMap_new_def)

lemma maps_identical_AddClient:
  assumes "maps_identical m"
  shows "maps_identical (snd (AddClient c m))"
  using assms
  by (auto simp: maps_identical_def AddClient_unfold AddClientToShadowMaps_def SwapInShadowMaps_def
      SwapInShadowMapsRT_def Let_def split: option.splits sum.splits if_splits)

lemma maps_identical_RemoveClient:
  assumes "maps_identical m"
  shows "maps_identical (snd (RemoveClient k m))"
  using assms
  by (auto simp: maps_identical_def RemoveClient_unfold EraseClient_def SwapInShadowMaps_def
      SwapInShadowMapsRT_def Let_def split: option.splits)

lemma maps_identical_UpdateClientIOStateNonRT:
  assumes "maps_identical m"
  shows "maps_identical (snd (UpdateClientIOStateNonRT k b m))"
  using assms
  by (auto simp: maps_identical_def UpdateClientIOStateNonRT_unfold SetDoingIOInShadow_def
      SwapInShadowMaps_def SwapInShadowMapsRT_def Let_def split: option.splits)

lemma maps_identical_after:
  assumes "maps_identical m"
  shows "maps_identical (ClientMap_after m call)"
  using assms
  by (cases call)
    (simp_all add: maps_identical_AddClient maps_identical_RemoveClient
      maps_identical_UpdateClientIOStateNonRT ClientMap_StartIONonRT_def ClientMap_StopIONonRT_def)

lemma maps_identical_foldl:
  assumes "maps_identical m"
  shows "maps_identical (foldl ClientMap_after m calls)"
  using assms
  by (induction calls arbitrary: m) (simp_all add: maps_identical_after)

text \<open>
  C1. Starting from a newly constructed map, after every sequence of calls of the mutators
  (\<open>AddClient\<close>, \<open>RemoveClient\<close>, \<open>StartIONonRT\<close>, \<open>StopIONonRT\<close>), each main map equals its
  shadow: the map by client ID, the map by process ID and the map by bundle ID have the same
  keys, the same clients under each key and the same pointer lists in the same order.
\<close>

theorem ClientMap_shadow_maps_identical:
  "mClientMap (ClientMap_run calls) = mClientMapShadow (ClientMap_run calls) \<and>
   mClientMapByPID (ClientMap_run calls) = mClientMapByPIDShadow (ClientMap_run calls) \<and>
   mClientMapByBundleID (ClientMap_run calls) = mClientMapByBundleIDShadow (ClientMap_run calls)"
  using maps_identical_foldl [OF maps_identical_new, of calls]
  by (simp add: ClientMap_run_def maps_identical_def)

section \<open>Pointers stay valid\<close>

lemma index_valid_empty: "index_valid Map.empty byID key"
  by (simp add: index_valid_def)

lemma index_valid_insert:
  assumes "index_valid idx byID key" and "byID k0 = None"
  shows "index_valid idx (byID(k0 \<mapsto> c0)) key"
  using assms unfolding index_valid_def by (metis fun_upd_other option.distinct(1))

lemma index_valid_push_back:
  assumes "index_valid idx byID key" and "byID k0 = None" and "key c0 = Some p0"
  shows "index_valid (push_back idx p0 k0) (byID(k0 \<mapsto> c0)) key"
  unfolding index_valid_def
proof (intro allI impI, elim conjE)
  fix p ps k
  assume a: "push_back idx p0 k0 p = Some ps" and b: "k \<in> set ps"
  show "\<exists>c. (byID(k0 \<mapsto> c0)) k = Some c \<and> key c = Some p"
  proof (cases "k = k0")
    case True
    have "p = p0"
    proof (rule ccontr)
      assume "p \<noteq> p0"
      then have "idx p = Some ps" using a by (simp add: push_back_def)
      then have "\<exists>c. byID k0 = Some c \<and> key c = Some p"
        using assms(1) b True unfolding index_valid_def by blast
      then show False using assms(2) by simp
    qed
    then show ?thesis using True assms(3) by simp
  next
    case False
    have "\<exists>qs. idx p = Some qs \<and> k \<in> set qs"
      using a b False by (auto simp: push_back_def split: if_splits option.splits)
    then have "\<exists>c. byID k = Some c \<and> key c = Some p"
      using assms(1) unfolding index_valid_def by blast
    then show ?thesis using False by simp
  qed
qed

lemma index_valid_erase:
  assumes "index_valid idx byID key" and "byID k0 = Some c0" and "key c0 = Some p0"
  shows "index_valid (idx(p0 := None)) (byID(k0 := None)) key"
  unfolding index_valid_def
proof (intro allI impI, elim conjE)
  fix p ps k
  assume a: "(idx(p0 := None)) p = Some ps" and b: "k \<in> set ps"
  have p: "p \<noteq> p0" and i: "idx p = Some ps"
    using a by (auto split: if_splits)
  obtain c where c: "byID k = Some c" "key c = Some p"
    using assms(1) i b unfolding index_valid_def by blast
  have "k \<noteq> k0" using c assms(2,3) p by auto
  then show "\<exists>c. (byID(k0 := None)) k = Some c \<and> key c = Some p"
    using c by simp
qed

lemma index_valid_erase_unkeyed:
  assumes "index_valid idx byID key" and "byID k0 = Some c0" and "key c0 = None"
  shows "index_valid idx (byID(k0 := None)) key"
  unfolding index_valid_def
proof (intro allI impI, elim conjE)
  fix p ps k
  assume i: "idx p = Some ps" and b: "k \<in> set ps"
  obtain c where c: "byID k = Some c" "key c = Some p"
    using assms(1) i b unfolding index_valid_def by blast
  have "k \<noteq> k0" using c assms(2,3) by auto
  then show "\<exists>c. (byID(k0 := None)) k = Some c \<and> key c = Some p"
    using c by simp
qed

lemma index_valid_rewrite:
  assumes "index_valid idx byID key" and "\<And>c. byID k0 = Some c \<Longrightarrow> key c' = key c"
  shows "index_valid idx (byID(k0 \<mapsto> c')) key"
  unfolding index_valid_def
proof (intro allI impI, elim conjE)
  fix p ps k
  assume i: "idx p = Some ps" and b: "k \<in> set ps"
  obtain c where c: "byID k = Some c" "key c = Some p"
    using assms(1) i b unfolding index_valid_def by blast
  show "\<exists>c. (byID(k0 \<mapsto> c')) k = Some c \<and> key c = Some p"
    using c assms(2) by (cases "k = k0") auto
qed

lemma pointers_valid_new: "pointers_valid RDC_ClientMap_new"
  by (simp add: pointers_valid_def RDC_ClientMap_new_def index_valid_empty)

lemma AddClient_result:
  assumes "maps_identical m" and "mClientMap m (mClientID c) = None"
  shows "AddClient c m =
    (Inr (),
     m\<lparr>mClientMap := (mClientMap m)(mClientID c \<mapsto> c),
       mClientMapShadow := (mClientMapShadow m)(mClientID c \<mapsto> c),
       mClientMapByPID := push_back (mClientMapByPID m) (mProcessID c) (mClientID c),
       mClientMapByPIDShadow := push_back (mClientMapByPIDShadow m) (mProcessID c) (mClientID c),
       mClientMapByBundleID :=
         (case mBundleID c of None \<Rightarrow> mClientMapByBundleID m
          | Some b \<Rightarrow> push_back (mClientMapByBundleID m) b (mClientID c)),
       mClientMapByBundleIDShadow :=
         (case mBundleID c of None \<Rightarrow> mClientMapByBundleIDShadow m
          | Some b \<Rightarrow> push_back (mClientMapByBundleIDShadow m) b (mClientID c)),
       mPastClientMap :=
         (case mBundleID c of None \<Rightarrow> mPastClientMap m
          | Some b \<Rightarrow> (mPastClientMap m)(b \<mapsto> c))\<rparr>)"
  using assms
  by (cases "mBundleID c")
     (simp_all add: maps_identical_def AddClient_unfold AddClientToShadowMaps_def SwapInShadowMaps_def
       SwapInShadowMapsRT_def Let_def)

lemma AddClient_present:
  assumes "mClientMapShadow m (mClientID c) = Some c'"
  shows "AddClient c m = (Inl InvalidClient, m)"
  using assms by (simp add: AddClient_unfold AddClientToShadowMaps_def)

lemma RemoveClient_result:
  assumes "maps_identical m" and "mClientMap m k = Some c"
  shows "RemoveClient k m =
    (Inr c,
     m\<lparr>mClientMap := (mClientMap m)(k := None),
       mClientMapShadow := (mClientMapShadow m)(k := None),
       mClientMapByPID := (mClientMapByPID m)(mProcessID c := None),
       mClientMapByPIDShadow := (mClientMapByPIDShadow m)(mProcessID c := None),
       mClientMapByBundleID :=
         (case mBundleID c of None \<Rightarrow> mClientMapByBundleID m
          | Some b \<Rightarrow> (mClientMapByBundleID m)(b := None)),
       mClientMapByBundleIDShadow :=
         (case mBundleID c of None \<Rightarrow> mClientMapByBundleIDShadow m
          | Some b \<Rightarrow> (mClientMapByBundleIDShadow m)(b := None))\<rparr>)"
  using assms
  by (cases "mBundleID c")
     (simp_all add: maps_identical_def RemoveClient_unfold EraseClient_def SwapInShadowMaps_def
       SwapInShadowMapsRT_def Let_def)

lemma RemoveClient_absent:
  assumes "mClientMapShadow m k = None"
  shows "RemoveClient k m = (Inl InvalidClient, m)"
  using assms by (simp add: RemoveClient_unfold)

lemma UpdateClientIOStateNonRT_result:
  assumes "maps_identical m"
  shows "UpdateClientIOStateNonRT k b m =
    (Inr (),
     m\<lparr>mClientMap :=
         (mClientMap m)(k \<mapsto> (case mClientMap m k of None \<Rightarrow> RDC_Client_default | Some c \<Rightarrow> c)
                               \<lparr>mDoingIO := b\<rparr>),
       mClientMapShadow :=
         (mClientMapShadow m)(k \<mapsto> (case mClientMapShadow m k of None \<Rightarrow> RDC_Client_default | Some c \<Rightarrow> c)
                               \<lparr>mDoingIO := b\<rparr>)\<rparr>)"
  using assms
  by (simp add: maps_identical_def UpdateClientIOStateNonRT_unfold SetDoingIOInShadow_def
      SwapInShadowMaps_def SwapInShadowMapsRT_def Let_def)

lemma pointers_valid_AddClient:
  assumes "maps_identical m" and "pointers_valid m"
  shows "pointers_valid (snd (AddClient c m))"
proof (cases "mClientMap m (mClientID c)")
  case None
  have fresh: "mClientMapShadow m (mClientID c) = None"
    using None assms(1) by (simp add: maps_identical_def)
  have pid: "index_valid (push_back (mClientMapByPIDShadow m) (mProcessID c) (mClientID c))
      ((mClientMapShadow m)(mClientID c \<mapsto> c)) (\<lambda>c. Some (mProcessID c))"
    using assms(2) fresh by (simp add: pointers_valid_def index_valid_push_back)
  show ?thesis
  proof (cases "mBundleID c")
    case None
    have "index_valid (mClientMapByBundleIDShadow m) ((mClientMapShadow m)(mClientID c \<mapsto> c)) mBundleID"
      using assms(2) fresh by (simp add: pointers_valid_def index_valid_insert)
    then show ?thesis
      using pid None by (simp add: AddClient_result [OF assms(1) \<open>mClientMap m (mClientID c) = None\<close>]
          pointers_valid_def)
  next
    case (Some b)
    have "index_valid (push_back (mClientMapByBundleIDShadow m) b (mClientID c))
        ((mClientMapShadow m)(mClientID c \<mapsto> c)) mBundleID"
      using assms(2) fresh Some by (simp add: pointers_valid_def index_valid_push_back)
    then show ?thesis
      using pid Some by (simp add: AddClient_result [OF assms(1) \<open>mClientMap m (mClientID c) = None\<close>]
          pointers_valid_def)
  qed
next
  case (Some c')
  then have "mClientMapShadow m (mClientID c) = Some c'"
    using assms(1) by (simp add: maps_identical_def)
  then show ?thesis
    using assms(2) by (simp add: AddClient_present)
qed

lemma pointers_valid_RemoveClient:
  assumes "maps_identical m" and "pointers_valid m"
  shows "pointers_valid (snd (RemoveClient k m))"
proof (cases "mClientMap m k")
  case None
  then have "mClientMapShadow m k = None"
    using assms(1) by (simp add: maps_identical_def)
  then show ?thesis
    using assms(2) by (simp add: RemoveClient_absent)
next
  case (Some c)
  have sh: "mClientMapShadow m k = Some c"
    using Some assms(1) by (simp add: maps_identical_def)
  have pid: "index_valid ((mClientMapByPIDShadow m)(mProcessID c := None))
      ((mClientMapShadow m)(k := None)) (\<lambda>c. Some (mProcessID c))"
    using assms(2) sh by (simp add: pointers_valid_def index_valid_erase)
  show ?thesis
  proof (cases "mBundleID c")
    case None
    have "index_valid (mClientMapByBundleIDShadow m) ((mClientMapShadow m)(k := None)) mBundleID"
      using assms(2) sh None by (simp add: pointers_valid_def index_valid_erase_unkeyed)
    then show ?thesis
      using pid None by (simp add: RemoveClient_result [OF assms(1) Some] pointers_valid_def)
  next
    case (Some b)
    have "index_valid ((mClientMapByBundleIDShadow m)(b := None)) ((mClientMapShadow m)(k := None)) mBundleID"
      using assms(2) sh Some by (simp add: pointers_valid_def index_valid_erase)
    then show ?thesis
      using pid Some by (simp add: RemoveClient_result [OF assms(1) \<open>mClientMap m k = Some c\<close>]
          pointers_valid_def)
  qed
qed

lemma pointers_valid_UpdateClientIOStateNonRT:
  assumes "maps_identical m" and "pointers_valid m"
  shows "pointers_valid (snd (UpdateClientIOStateNonRT k b m))"
proof -
  let ?c' = "(case mClientMapShadow m k of None \<Rightarrow> RDC_Client_default | Some c \<Rightarrow> c)\<lparr>mDoingIO := b\<rparr>"
  have "index_valid (mClientMapByPIDShadow m) ((mClientMapShadow m)(k \<mapsto> ?c')) (\<lambda>c. Some (mProcessID c))"
    using assms(2) by (auto simp: pointers_valid_def intro!: index_valid_rewrite)
  moreover have "index_valid (mClientMapByBundleIDShadow m) ((mClientMapShadow m)(k \<mapsto> ?c')) mBundleID"
    using assms(2) by (auto simp: pointers_valid_def intro!: index_valid_rewrite)
  ultimately show ?thesis
    by (simp add: UpdateClientIOStateNonRT_result [OF assms(1)] pointers_valid_def)
qed

lemma pointers_valid_after:
  assumes "maps_identical m" and "pointers_valid m"
  shows "pointers_valid (ClientMap_after m call)"
  using assms
  by (cases call)
    (simp_all add: pointers_valid_AddClient pointers_valid_RemoveClient
      pointers_valid_UpdateClientIOStateNonRT ClientMap_StartIONonRT_def ClientMap_StopIONonRT_def)

lemma ClientMap_invariant_foldl:
  assumes "maps_identical m" and "pointers_valid m"
  shows "maps_identical (foldl ClientMap_after m calls) \<and> pointers_valid (foldl ClientMap_after m calls)"
  using assms
  by (induction calls arbitrary: m) (simp_all add: maps_identical_after pointers_valid_after)

lemma ClientMap_run_invariant:
  "maps_identical (ClientMap_run calls) \<and> pointers_valid (ClientMap_run calls)"
  unfolding ClientMap_run_def
  by (rule ClientMap_invariant_foldl [OF maps_identical_new pointers_valid_new])

section \<open>Adding and removing clients\<close>

lemma maps_identical_example_map_1: "maps_identical example_map_1"
  unfolding example_map_1_def by (rule maps_identical_AddClient [OF maps_identical_new])


lemma example_map_1_eq:
  "example_map_1 =
     \<lparr>mClientMap = [1 \<mapsto> example_client_1], mClientMapShadow = [1 \<mapsto> example_client_1],
      mClientMapByPID = [100 \<mapsto> [1]], mClientMapByPIDShadow = [100 \<mapsto> [1]],
      mClientMapByBundleID = [''a'' \<mapsto> [1]], mClientMapByBundleIDShadow = [''a'' \<mapsto> [1]],
      mPastClientMap = [''a'' \<mapsto> example_client_1]\<rparr>"
  by (simp add: example_map_1_def example_client_1_def RDC_ClientMap_new_def AddClient_unfold
      AddClientToShadowMaps_def SwapInShadowMaps_def SwapInShadowMapsRT_def push_back_def Let_def)

text \<open>
  C2 asks that \<open>AddClient\<close> followed by \<open>RemoveClient\<close> of the same client ID restore the maps
  by ID, by process ID and by bundle ID, also when another registered client shares the process
  ID or the bundle ID. The code at such an input: client 1 (process 100, bundle \<open>a\<close>) is
  registered, client 2 with the same process and bundle is added and removed again. Both calls
  return, client 1 is still in the map by ID, but the entries of process 100 and of bundle \<open>a\<close>,
  which held the pointer to client 1 before, are gone from the main and the shadow maps:
  \<open>RemoveClient\<close> erases the whole entry of the process and of the bundle.
\<close>

theorem AddClient_RemoveClient_shared_pid:
  "mClientMap example_map_1 2 = None \<and>
   fst (AddClient example_client_2 example_map_1) = Inr () \<and>
   fst (RemoveClient 2 (snd (AddClient example_client_2 example_map_1))) = Inr example_client_2 \<and>
   mClientMapByPID example_map_1 100 = Some [1] \<and>
   mClientMapByPID (snd (RemoveClient 2 (snd (AddClient example_client_2 example_map_1)))) 100 = None \<and>
   mClientMapByPIDShadow (snd (RemoveClient 2 (snd (AddClient example_client_2 example_map_1)))) 100 = None \<and>
   mClientMapByBundleID example_map_1 ''a'' = Some [1] \<and>
   mClientMapByBundleID (snd (RemoveClient 2 (snd (AddClient example_client_2 example_map_1)))) ''a'' = None \<and>
   mClientMapByBundleIDShadow (snd (RemoveClient 2 (snd (AddClient example_client_2 example_map_1)))) ''a'' = None \<and>
   mClientMap (snd (RemoveClient 2 (snd (AddClient example_client_2 example_map_1)))) 1 = Some example_client_1"
  by (simp add: example_map_1_eq example_client_1_def example_client_2_def AddClient_unfold
      AddClientToShadowMaps_def SwapInShadowMaps_def SwapInShadowMapsRT_def push_back_def Let_def
      RemoveClient_unfold EraseClient_def)

lemma AddClient_RemoveClient_unshared:
  assumes "maps_identical m" and "mClientMap m (mClientID c) = None"
    and "mClientMapByPID m (mProcessID c) = None"
    and "\<And>b. mBundleID c = Some b \<Longrightarrow> mClientMapByBundleID m b = None"
  shows "RemoveClient (mClientID c) (snd (AddClient c m)) =
    (Inr c, m\<lparr>mPastClientMap :=
               (case mBundleID c of None \<Rightarrow> mPastClientMap m | Some b \<Rightarrow> (mPastClientMap m)(b \<mapsto> c))\<rparr>)"
proof -
  have id: "maps_identical (snd (AddClient c m))"
    by (rule maps_identical_AddClient [OF assms(1)])
  have there: "mClientMap (snd (AddClient c m)) (mClientID c) = Some c"
    by (simp add: AddClient_result [OF assms(1,2)])
  have sh: "mClientMapShadow m (mClientID c) = None" "mClientMapByPIDShadow m (mProcessID c) = None"
    using assms(1,2,3) by (simp_all add: maps_identical_def)
  show ?thesis
  proof (cases "mBundleID c")
    case None
    then show ?thesis
      unfolding RemoveClient_result [OF id there]
      using assms(2,3) sh
      by (simp add: AddClient_result [OF assms(1,2)] push_back_def fun_upd_idem)
  next
    case (Some b)
    have "mClientMapByBundleID m b = None" by (rule assms(4) [OF Some])
    moreover from this have "mClientMapByBundleIDShadow m b = None"
      using assms(1) by (simp add: maps_identical_def)
    ultimately show ?thesis
      unfolding RemoveClient_result [OF id there]
      using assms(2,3) sh Some
      by (simp add: AddClient_result [OF assms(1,2)] push_back_def fun_upd_idem)
  qed
qed

lemma AddClient_queued_completed: "AddClient_queued TaskCompleted c m = AddClient c m"
  by (simp add: AddClient_def)

lemma RemoveClient_queued_completed: "RemoveClient_queued TaskCompleted k m = RemoveClient k m"
  by (simp add: RemoveClient_def)

lemma AddClient_queued_present:
  assumes "mClientMapShadow m (mClientID c) = Some c'"
  shows "AddClient_queued q c m = (Inl InvalidClient, m)"
  using assms by (simp add: AddClient_queued_def AddClientToShadowMaps_def)

lemma RemoveClient_queued_absent:
  assumes "mClientMapShadow m k = None"
  shows "RemoveClient_queued q k m = (Inl InvalidClient, m)"
  using assms by (simp add: RemoveClient_queued_def)

lemma AddClient_queued_failed:
  assumes "mClientMapShadow m (mClientID c) = None"
  shows "\<exists>m1. AddClientToShadowMaps c m = Inr m1 \<and>
           mClientMapShadow m1 (mClientID c) = Some c \<and> mClientMap m1 = mClientMap m \<and>
           AddClient_queued (TaskFailed theError hasRun) c m =
             (Inl (MachError theError), if hasRun then SwapInShadowMapsRT m1 else m1)"
  using assms
  by (cases "mBundleID c")
     (simp_all add: AddClient_queued_def AddClientToShadowMaps_def SwapInShadowMaps_def Let_def)

lemma RemoveClient_queued_failed:
  assumes "mClientMapShadow m k = Some c"
  shows "mClientMapShadow (EraseClient k c m) k = None \<and>
         mClientMap (EraseClient k c m) = mClientMap m \<and>
         RemoveClient_queued (TaskFailed theError hasRun) k m =
           (Inl (MachError theError),
            if hasRun then SwapInShadowMapsRT (EraseClient k c m) else EraseClient k c m)"
  using assms
  by (cases "mBundleID c")
     (simp_all add: RemoveClient_queued_def EraseClient_def SwapInShadowMaps_def Let_def)

text \<open>
  C3 as stated fails when the task queue fails. Client 1 is registered and the maps are at
  rest. \<open>AddClient\<close> of client 2, with \<open>semaphore_timedwait\<close> returning \<open>KERN_ABORTED\<close> (14)
  before the worker has run the task, fails with that Mach error and not with \<open>InvalidClient\<close>,
  and it leaves client 2 in the shadow map by ID, which did not hold it before, and not in the
  main map. \<open>RemoveClient\<close> of client 1 with the same failure of the queue leaves client 1 in
  the main map by ID but not in the shadow map, and has erased the entry of its bundle ID from
  the main map by bundle ID.
\<close>

theorem ClientMap_queue_failure_writes_shadow:
  "maps_identical example_map_1 \<and>
   mClientMapShadow example_map_1 2 = None \<and>
   fst (AddClient_queued (TaskFailed 14 False) example_client_2 example_map_1) = Inl (MachError 14) \<and>
   mClientMapShadow (snd (AddClient_queued (TaskFailed 14 False) example_client_2 example_map_1)) 2 =
     Some example_client_2 \<and>
   mClientMap (snd (AddClient_queued (TaskFailed 14 False) example_client_2 example_map_1)) 2 = None \<and>
   snd (AddClient_queued (TaskFailed 14 False) example_client_2 example_map_1) \<noteq> example_map_1 \<and>
   mClientMapShadow example_map_1 1 = Some example_client_1 \<and>
   mClientMapByBundleID example_map_1 ''a'' = Some [1] \<and>
   fst (RemoveClient_queued (TaskFailed 14 False) 1 example_map_1) = Inl (MachError 14) \<and>
   mClientMapShadow (snd (RemoveClient_queued (TaskFailed 14 False) 1 example_map_1)) 1 = None \<and>
   mClientMap (snd (RemoveClient_queued (TaskFailed 14 False) 1 example_map_1)) 1 =
     Some example_client_1 \<and>
   mClientMapByBundleID (snd (RemoveClient_queued (TaskFailed 14 False) 1 example_map_1)) ''a'' = None \<and>
   snd (RemoveClient_queued (TaskFailed 14 False) 1 example_map_1) \<noteq> example_map_1"
proof -
  have add: "AddClient_queued (TaskFailed 14 False) example_client_2 example_map_1 =
      (Inl (MachError 14),
       example_map_1\<lparr>mClientMapShadow := [1 \<mapsto> example_client_1, 2 \<mapsto> example_client_2],
                      mClientMapByPIDShadow := [100 \<mapsto> [1, 2]],
                      mClientMapByBundleIDShadow := [''a'' \<mapsto> [1, 2]]\<rparr>)"
    by (simp add: example_map_1_eq example_client_1_def example_client_2_def AddClient_queued_def
        AddClientToShadowMaps_def SwapInShadowMaps_def push_back_def Let_def)
  have rem: "RemoveClient_queued (TaskFailed 14 False) 1 example_map_1 =
      (Inl (MachError 14),
       example_map_1\<lparr>mClientMapShadow := Map.empty, mClientMapByPIDShadow := Map.empty,
                      mClientMapByBundleID := Map.empty\<rparr>)"
    by (simp add: example_map_1_eq example_client_1_def RemoveClient_queued_def EraseClient_def
        SwapInShadowMaps_def Let_def)
  have d1: "snd (AddClient_queued (TaskFailed 14 False) example_client_2 example_map_1) \<noteq> example_map_1"
  proof
    assume "snd (AddClient_queued (TaskFailed 14 False) example_client_2 example_map_1) = example_map_1"
    then have "mClientMapShadow (snd (AddClient_queued (TaskFailed 14 False) example_client_2 example_map_1)) 2
        = mClientMapShadow example_map_1 2"
      by (simp only:)
    then show False by (simp add: add) (simp add: example_map_1_eq)
  qed
  have d2: "snd (RemoveClient_queued (TaskFailed 14 False) 1 example_map_1) \<noteq> example_map_1"
  proof
    assume "snd (RemoveClient_queued (TaskFailed 14 False) 1 example_map_1) = example_map_1"
    then have "mClientMapShadow (snd (RemoveClient_queued (TaskFailed 14 False) 1 example_map_1)) 1
        = mClientMapShadow example_map_1 1"
      by (simp only:)
    then show False by (simp add: rem) (simp add: example_map_1_eq)
  qed
  show ?thesis
    using maps_identical_example_map_1 d1 d2
    by (simp add: add rem) (simp add: example_map_1_eq example_client_1_def example_client_2_def)
qed

text \<open>
  C3, amended. On a map at rest, for either outcome of the task queue: \<open>AddClient\<close> fails
  with \<open>InvalidClient\<close> exactly when the client ID is already in the map, and \<open>RemoveClient\<close>
  fails with \<open>InvalidClient\<close> exactly when the client ID is not in the map; a call that fails
  with \<open>InvalidClient\<close> leaves every main map, every shadow map and the map of past clients as
  they were. When the client ID allows the call, the call returns if the task queue completes
  the swap, and otherwise fails with the Mach error of the queue, which is the only other
  failure; the map it then leaves behind is the one with the first write to the shadow maps,
  swapped if the worker has run the task, and differs from the map before the call.
\<close>

theorem ClientMap_InvalidClient_iff:
  assumes "maps_identical m"
  shows "(fst (AddClient_queued q c m) = Inl InvalidClient \<longleftrightarrow> mClientID c \<in> dom (mClientMap m)) \<and>
         (fst (AddClient_queued q c m) = Inl InvalidClient \<longrightarrow> snd (AddClient_queued q c m) = m) \<and>
         (mClientID c \<notin> dom (mClientMap m) \<longrightarrow>
            fst (AddClient_queued TaskCompleted c m) = Inr () \<and>
            fst (AddClient_queued (TaskFailed theError hasRun) c m) = Inl (MachError theError) \<and>
            (\<exists>m1. AddClientToShadowMaps c m = Inr m1 \<and>
                  snd (AddClient_queued (TaskFailed theError hasRun) c m) =
                    (if hasRun then SwapInShadowMapsRT m1 else m1)) \<and>
            snd (AddClient_queued (TaskFailed theError hasRun) c m) \<noteq> m) \<and>
         (fst (RemoveClient_queued q k m) = Inl InvalidClient \<longleftrightarrow> k \<notin> dom (mClientMap m)) \<and>
         (fst (RemoveClient_queued q k m) = Inl InvalidClient \<longrightarrow> snd (RemoveClient_queued q k m) = m) \<and>
         (\<forall>c'. mClientMap m k = Some c' \<longrightarrow>
            fst (RemoveClient_queued TaskCompleted k m) = Inr c' \<and>
            RemoveClient_queued (TaskFailed theError hasRun) k m =
              (Inl (MachError theError),
               if hasRun then SwapInShadowMapsRT (EraseClient k c' m) else EraseClient k c' m) \<and>
            snd (RemoveClient_queued (TaskFailed theError hasRun) k m) \<noteq> m)"
proof -
  have add: "(fst (AddClient_queued q c m) = Inl InvalidClient \<longleftrightarrow> mClientID c \<in> dom (mClientMap m)) \<and>
         (fst (AddClient_queued q c m) = Inl InvalidClient \<longrightarrow> snd (AddClient_queued q c m) = m) \<and>
         (mClientID c \<notin> dom (mClientMap m) \<longrightarrow>
            fst (AddClient_queued TaskCompleted c m) = Inr () \<and>
            fst (AddClient_queued (TaskFailed theError hasRun) c m) = Inl (MachError theError) \<and>
            (\<exists>m1. AddClientToShadowMaps c m = Inr m1 \<and>
                  snd (AddClient_queued (TaskFailed theError hasRun) c m) =
                    (if hasRun then SwapInShadowMapsRT m1 else m1)) \<and>
            snd (AddClient_queued (TaskFailed theError hasRun) c m) \<noteq> m)"
  proof (cases "mClientMap m (mClientID c)")
    case None
    have sh: "mClientMapShadow m (mClientID c) = None"
      using None assms by (simp add: maps_identical_def)
    have absent: "mClientID c \<notin> dom (mClientMap m)"
      using None by (simp add: dom_def)
    have ok: "fst (AddClient_queued TaskCompleted c m) = Inr ()"
      by (simp add: AddClient_queued_completed AddClient_result [OF assms None])
    have failed: "\<And>e r. \<exists>m1. AddClientToShadowMaps c m = Inr m1 \<and>
           mClientMapShadow m1 (mClientID c) = Some c \<and> mClientMap m1 = mClientMap m \<and>
           AddClient_queued (TaskFailed e r) c m =
             (Inl (MachError e), if r then SwapInShadowMapsRT m1 else m1)"
      by (rule AddClient_queued_failed [OF sh])
    have changed: "\<And>e r. snd (AddClient_queued (TaskFailed e r) c m) \<noteq> m"
    proof -
      fix e r
      obtain m1 where m1: "mClientMapShadow m1 (mClientID c) = Some c" "mClientMap m1 = mClientMap m"
        and res: "AddClient_queued (TaskFailed e r) c m =
             (Inl (MachError e), if r then SwapInShadowMapsRT m1 else m1)"
        using failed [of e r] by blast
      show "snd (AddClient_queued (TaskFailed e r) c m) \<noteq> m"
      proof
        assume eq: "snd (AddClient_queued (TaskFailed e r) c m) = m"
        show False
        proof (cases r)
          case True
          then have "snd (AddClient_queued (TaskFailed e r) c m) = SwapInShadowMapsRT m1"
            using res by simp
          then have "mClientMap (snd (AddClient_queued (TaskFailed e r) c m)) (mClientID c) = Some c"
            using m1 by (simp add: SwapInShadowMapsRT_def)
          then show False using None by (simp add: eq)
        next
          case False
          then have "snd (AddClient_queued (TaskFailed e r) c m) = m1"
            using res by simp
          then have "mClientMapShadow (snd (AddClient_queued (TaskFailed e r) c m)) (mClientID c) = Some c"
            using m1 by simp
          then show False using sh by (simp add: eq)
        qed
      qed
    qed
    have not_invalid: "fst (AddClient_queued q c m) \<noteq> Inl InvalidClient"
    proof (cases q)
      case TaskCompleted
      then show ?thesis using ok by simp
    next
      case (TaskFailed e r)
      then show ?thesis using failed [of e r] by auto
    qed
    have fst_failed: "fst (AddClient_queued (TaskFailed theError hasRun) c m) = Inl (MachError theError)"
      using failed [of theError hasRun] by auto
    have state: "\<exists>m1. AddClientToShadowMaps c m = Inr m1 \<and>
                  snd (AddClient_queued (TaskFailed theError hasRun) c m) =
                    (if hasRun then SwapInShadowMapsRT m1 else m1)"
      using failed [of theError hasRun] by auto
    show ?thesis
      using absent ok not_invalid fst_failed state changed [of theError hasRun] by simp
  next
    case (Some c')
    then have "mClientMapShadow m (mClientID c) = Some c'"
      using assms by (simp add: maps_identical_def)
    then show ?thesis using Some by (simp add: AddClient_queued_present dom_def)
  qed
  have rem: "(fst (RemoveClient_queued q k m) = Inl InvalidClient \<longleftrightarrow> k \<notin> dom (mClientMap m)) \<and>
         (fst (RemoveClient_queued q k m) = Inl InvalidClient \<longrightarrow> snd (RemoveClient_queued q k m) = m) \<and>
         (\<forall>c'. mClientMap m k = Some c' \<longrightarrow>
            fst (RemoveClient_queued TaskCompleted k m) = Inr c' \<and>
            RemoveClient_queued (TaskFailed theError hasRun) k m =
              (Inl (MachError theError),
               if hasRun then SwapInShadowMapsRT (EraseClient k c' m) else EraseClient k c' m) \<and>
            snd (RemoveClient_queued (TaskFailed theError hasRun) k m) \<noteq> m)"
  proof (cases "mClientMap m k")
    case None
    then have "mClientMapShadow m k = None"
      using assms by (simp add: maps_identical_def)
    then show ?thesis using None by (simp add: RemoveClient_queued_absent dom_def)
  next
    case (Some c')
    have sh: "mClientMapShadow m k = Some c'"
      using Some assms by (simp add: maps_identical_def)
    have present: "k \<in> dom (mClientMap m)"
      using Some by (simp add: dom_def)
    have ok: "fst (RemoveClient_queued TaskCompleted k m) = Inr c'"
      by (simp add: RemoveClient_queued_completed RemoveClient_result [OF assms Some])
    note failed = RemoveClient_queued_failed [OF sh]
    have changed: "\<And>e r. snd (RemoveClient_queued (TaskFailed e r) k m) \<noteq> m"
    proof -
      fix e r
      have res: "RemoveClient_queued (TaskFailed e r) k m =
           (Inl (MachError e),
            if r then SwapInShadowMapsRT (EraseClient k c' m) else EraseClient k c' m)"
        and gone: "mClientMapShadow (EraseClient k c' m) k = None"
        using failed [of e r] by simp_all
      show "snd (RemoveClient_queued (TaskFailed e r) k m) \<noteq> m"
      proof
        assume eq: "snd (RemoveClient_queued (TaskFailed e r) k m) = m"
        show False
        proof (cases r)
          case True
          then have "snd (RemoveClient_queued (TaskFailed e r) k m) =
              SwapInShadowMapsRT (EraseClient k c' m)"
            using res by simp
          then have "mClientMap (snd (RemoveClient_queued (TaskFailed e r) k m)) k = None"
            using gone by (simp add: SwapInShadowMapsRT_def)
          then show False using Some by (simp add: eq)
        next
          case False
          then have "snd (RemoveClient_queued (TaskFailed e r) k m) = EraseClient k c' m"
            using res by simp
          then have "mClientMapShadow (snd (RemoveClient_queued (TaskFailed e r) k m)) k = None"
            using gone by simp
          then show False using sh by (simp add: eq)
        qed
      qed
    qed
    have not_invalid: "fst (RemoveClient_queued q k m) \<noteq> Inl InvalidClient"
    proof (cases q)
      case TaskCompleted
      then show ?thesis using ok by simp
    next
      case (TaskFailed e r)
      then show ?thesis using failed [of e r] by simp
    qed
    show ?thesis
      using present ok not_invalid failed [of theError hasRun] changed [of theError hasRun] Some
      by simp
  qed
  from add rem show ?thesis by blast
qed

theorem ClientMap_InvalidClient_iff_witness:
  "maps_identical example_map_1 \<and>
   mClientID example_client_1 \<in> dom (mClientMap example_map_1) \<and>
   AddClient_queued TaskCompleted example_client_1 example_map_1 = (Inl InvalidClient, example_map_1) \<and>
   AddClient_queued (TaskFailed 14 False) example_client_1 example_map_1 =
     (Inl InvalidClient, example_map_1) \<and>
   mClientID example_client_2 \<notin> dom (mClientMap example_map_1) \<and>
   fst (AddClient_queued TaskCompleted example_client_2 example_map_1) = Inr () \<and>
   fst (AddClient_queued (TaskFailed 14 False) example_client_2 example_map_1) = Inl (MachError 14) \<and>
   snd (AddClient_queued (TaskFailed 14 False) example_client_2 example_map_1) \<noteq> example_map_1 \<and>
   2 \<notin> dom (mClientMap example_map_1) \<and>
   RemoveClient_queued TaskCompleted 2 example_map_1 = (Inl InvalidClient, example_map_1) \<and>
   mClientMap example_map_1 1 = Some example_client_1 \<and>
   fst (RemoveClient_queued TaskCompleted 1 example_map_1) = Inr example_client_1 \<and>
   fst (RemoveClient_queued (TaskFailed 14 True) 1 example_map_1) = Inl (MachError 14) \<and>
   snd (RemoveClient_queued (TaskFailed 14 True) 1 example_map_1) \<noteq> example_map_1"
proof -
  have in1: "mClientID example_client_1 \<in> dom (mClientMap example_map_1)"
    and out2: "mClientID example_client_2 \<notin> dom (mClientMap example_map_1)"
    and k2: "2 \<notin> dom (mClientMap example_map_1)"
    and k1: "mClientMap example_map_1 1 = Some example_client_1"
    by (simp_all add: example_map_1_eq example_client_1_def example_client_2_def)
  note t1 = ClientMap_InvalidClient_iff
    [OF maps_identical_example_map_1, of TaskCompleted example_client_1 14 False 2]
  note t2 = ClientMap_InvalidClient_iff
    [OF maps_identical_example_map_1, of "TaskFailed 14 False" example_client_1 14 False 2]
  note t3 = ClientMap_InvalidClient_iff
    [OF maps_identical_example_map_1, of TaskCompleted example_client_2 14 False 1]
  note t4 = ClientMap_InvalidClient_iff
    [OF maps_identical_example_map_1, of TaskCompleted example_client_2 14 True 1]
  have a: "AddClient_queued TaskCompleted example_client_1 example_map_1 =
      (Inl InvalidClient, example_map_1)"
    using t1 in1 by (metis prod.collapse)
  have b: "AddClient_queued (TaskFailed 14 False) example_client_1 example_map_1 =
      (Inl InvalidClient, example_map_1)"
    using t2 in1 by (metis prod.collapse)
  have c: "RemoveClient_queued TaskCompleted 2 example_map_1 = (Inl InvalidClient, example_map_1)"
    using t1 k2 by (metis prod.collapse)
  have d: "fst (AddClient_queued TaskCompleted example_client_2 example_map_1) = Inr ()"
    "fst (AddClient_queued (TaskFailed 14 False) example_client_2 example_map_1) = Inl (MachError 14)"
    "snd (AddClient_queued (TaskFailed 14 False) example_client_2 example_map_1) \<noteq> example_map_1"
    using t3 out2 by blast+
  from t4 k1 have r:
    "fst (RemoveClient_queued TaskCompleted 1 example_map_1) = Inr example_client_1 \<and>
     RemoveClient_queued (TaskFailed 14 True) 1 example_map_1 =
       (Inl (MachError 14),
        if True then SwapInShadowMapsRT (EraseClient 1 example_client_1 example_map_1)
        else EraseClient 1 example_client_1 example_map_1) \<and>
     snd (RemoveClient_queued (TaskFailed 14 True) 1 example_map_1) \<noteq> example_map_1"
    by blast
  have e: "fst (RemoveClient_queued TaskCompleted 1 example_map_1) = Inr example_client_1"
    "fst (RemoveClient_queued (TaskFailed 14 True) 1 example_map_1) = Inl (MachError 14)"
    "snd (RemoveClient_queued (TaskFailed 14 True) 1 example_map_1) \<noteq> example_map_1"
    using r by (blast, metis fst_conv, blast)
  show ?thesis
    using maps_identical_example_map_1 in1 out2 k2 k1 a b c d e by simp
qed



section \<open>Starting and stopping IO\<close>

lemma example_clients_1_eq:
  "example_clients_1 = \<lparr>mClients_ClientMap = example_map_1, mStartCount = 0\<rparr>"
  by (simp add: example_clients_1_def Clients_AddClient_def RDC_Clients_new_def example_map_1_def
      split: prod.splits)







lemma UINT64_inc_le: "(x :: 64 word) \<noteq> UINT64_MAX \<Longrightarrow> x \<le> x + 1"
proof -
  assume "x \<noteq> UINT64_MAX"
  then have "x < - 1"
    by (simp add: UINT64_MAX_def word_order.not_eq_extremum)
  then have "unat x < unat (- 1 :: 64 word)"
    by (simp only: word_less_nat_alt)
  then have "unat x + unat (1 :: 64 word) < 2 ^ LENGTH(64)"
    by (simp add: unsigned_minus_1_eq_mask mask_eq_exp_minus_1)
  then show ?thesis
    by (simp only: no_olen_add_nat)
qed





text \<open>
  C10. \<open>StartIONonRT\<close> of \<open>RDC_Clients\<close> never overflows the count of starts: when the count is
  \<open>UINT64_MAX\<close> and a registered client that is not doing IO starts, the call fails with
  \<open>IllegalOperation\<close> and neither the count nor the client's flag changes; in every case the
  count after the call is at least the count before, so it never wraps to 0.
\<close>

theorem Clients_StartIONonRT_never_overflows:
  "(\<forall>c. mStartCount s = UINT64_MAX \<and> GetClientNonRT k (mClients_ClientMap s) = Some c \<and> \<not> mDoingIO c
       \<longrightarrow> Clients_StartIONonRT k s = (Inl IllegalOperation, s)) \<and>
   mStartCount s \<le> mStartCount (snd (Clients_StartIONonRT k s)) \<and>
   (mStartCount (snd (Clients_StartIONonRT k s)) = 0 \<longrightarrow> mStartCount s = 0)"
proof -
  have a: "\<forall>c. mStartCount s = UINT64_MAX \<and> GetClientNonRT k (mClients_ClientMap s) = Some c \<and> \<not> mDoingIO c
       \<longrightarrow> Clients_StartIONonRT k s = (Inl IllegalOperation, s)"
    by (simp add: Clients_StartIONonRT_def)
  have b: "mStartCount s \<le> mStartCount (snd (Clients_StartIONonRT k s))"
    by (auto simp: Clients_StartIONonRT_def ClientMap_StartIONonRT_def UpdateClientIOStateNonRT_unfold
        Let_def UINT64_inc_le split: option.splits)
  have c: "mStartCount (snd (Clients_StartIONonRT k s)) = 0 \<longrightarrow> mStartCount s = 0"
    using b by auto
  from a b c show ?thesis by blast
qed

theorem Clients_StartIONonRT_never_overflows_witness:
  "mStartCount example_clients_full = UINT64_MAX \<and>
   GetClientNonRT 1 (mClients_ClientMap example_clients_full) = Some example_client_1 \<and>
   \<not> mDoingIO example_client_1 \<and>
   Clients_StartIONonRT 1 example_clients_full = (Inl IllegalOperation, example_clients_full) \<and>
   mStartCount (snd (Clients_StartIONonRT 1 example_clients_full)) = UINT64_MAX \<and>
   UINT64_MAX = (18446744073709551615 :: 64 word)"
proof -
  have f: "mStartCount example_clients_full = UINT64_MAX"
    by (simp add: example_clients_full_def)
  have g: "GetClientNonRT 1 (mClients_ClientMap example_clients_full) = Some example_client_1"
    by (simp add: example_clients_full_def example_clients_1_eq example_map_1_eq GetClientNonRT_def)
  have n: "\<not> mDoingIO example_client_1"
    by (simp add: example_client_1_def)
  have r: "Clients_StartIONonRT 1 example_clients_full = (Inl IllegalOperation, example_clients_full)"
    using Clients_StartIONonRT_never_overflows [of example_clients_full 1] f g n by blast
  show ?thesis
    using f g n r by (simp add: UINT64_MAX_def)
qed

section \<open>The ring buffer\<close>

lemma and_mask_int_eq_mod:
  fixes t :: int
  shows "t AND (2 ^ k - 1) = t mod 2 ^ k"
proof -
  have "t AND mask k = take_bit k t"
    by (simp add: take_bit_eq_mask)
  then show ?thesis
    by (simp add: mask_eq_exp_minus_1 take_bit_eq_mod)
qed

lemma FrameOffset_mod:
  assumes "ring_buffer_wf rb"
  shows "FrameOffset rb t = nat (t mod int (mCapacityFrames rb)) * mBytesPerFrame rb"
proof -
  obtain k where k: "mCapacityFrames rb = 2 ^ k"
    using assms by (auto simp: ring_buffer_wf_def)
  have "mCapacityFramesMask rb = 2 ^ k - 1"
    using assms k by (simp add: ring_buffer_wf_def)
  then have "int (mCapacityFramesMask rb) = 2 ^ k - 1"
    by (simp add: of_nat_diff)
  then have m: "t AND int (mCapacityFramesMask rb) = t mod int (mCapacityFrames rb)"
    by (simp add: k and_mask_int_eq_mod)
  have "nat (t mod int (mCapacityFrames rb)) < mCapacityFrames rb"
    by (simp add: k nat_less_iff)
  then have "nat (t mod int (mCapacityFrames rb)) * mBytesPerFrame rb
      \<le> mCapacityFrames rb * mBytesPerFrame rb"
    by (intro mult_le_mono1) simp
  moreover have "mCapacityFrames rb * mBytesPerFrame rb < 2 ^ 32"
    using assms by (simp add: ring_buffer_wf_def)
  ultimately have "nat (t mod int (mCapacityFrames rb)) * mBytesPerFrame rb < 2 ^ 32"
    by linarith
  then show ?thesis
    by (simp add: FrameOffset_def m)
qed

lemma FrameOffset_in_storage:
  assumes "ring_buffer_wf rb" and "0 < mBytesPerFrame rb"
  shows "FrameOffset rb t < length (mBuffers rb)"
proof -
  obtain k where k: "mCapacityFrames rb = 2 ^ k"
    using assms by (auto simp: ring_buffer_wf_def)
  have "nat (t mod int (mCapacityFrames rb)) < mCapacityFrames rb"
    by (simp add: k nat_less_iff)
  then have "nat (t mod int (mCapacityFrames rb)) * mBytesPerFrame rb
      < mCapacityFrames rb * mBytesPerFrame rb"
    using assms(2) by simp
  then show ?thesis
    using assms(1) by (simp add: FrameOffset_mod [OF assms(1)] ring_buffer_wf_def)
qed







lemma length_StoreBytes [simp]: "length (StoreBytes buf off xs) = length buf"
  by (induction xs arbitrary: buf off) simp_all





lemma FetchBytes_nothing [simp]: "FetchBytes buf off 0 = []"
  by (simp add: FetchBytes_def)








lemma NextPowerOfTwoFrom_power:
  "\<exists>k. p = 2 ^ k \<Longrightarrow> \<exists>k. NextPowerOfTwoFrom p n = 2 ^ k"
proof (induction p n rule: NextPowerOfTwoFrom.induct)
  case (1 p n)
  show ?case
  proof (cases "p = 0 \<or> n \<le> p")
    case True
    then show ?thesis using "1.prems" by (simp add: NextPowerOfTwoFrom.simps)
  next
    case False
    obtain k where "p = 2 ^ k" using "1.prems" by blast
    then have "2 * p = 2 ^ Suc k" by simp
    then have "\<exists>k. 2 * p = 2 ^ k" by blast
    from "1.IH" [OF False this] show ?thesis
      using False by (simp add: NextPowerOfTwoFrom.simps [of p n])
  qed
qed

lemma NextPowerOfTwo_power: "\<exists>k. NextPowerOfTwo n = 2 ^ k"
  unfolding NextPowerOfTwo_def
  by (rule NextPowerOfTwoFrom_power) (rule exI [of _ 0], simp)

lemma ring_buffer_wf_Allocate:
  assumes "NextPowerOfTwo capacityFrames * bytesPerFrame < 2 ^ 32"
  shows "ring_buffer_wf (Allocate nChannels bytesPerFrame capacityFrames)"
  using NextPowerOfTwo_power [of capacityFrames] assms
  by (simp add: ring_buffer_wf_def Allocate_def Let_def kGeneralRingTimeBoundsQueueSize_def)



lemma NextPowerOfTwo_16384: "NextPowerOfTwo 16384 = 16384"
  by (simp add: NextPowerOfTwo_def NextPowerOfTwoFrom.simps)

lemma ring_buffer_wf_loopback:
  "ring_buffer_wf (Allocate 1 (2 * 4) kLoopbackRingBufferFrameSize)"
  by (rule ring_buffer_wf_Allocate) (simp add: kLoopbackRingBufferFrameSize_def NextPowerOfTwo_16384)






section \<open>The device: loopback clock, sample rate, IO data\<close>

lemma round_half_even_int [simp]: "round_half_even (real_of_int i) = i"
  by (simp add: round_half_even_def)

lemma round_half_even_numeral [simp]: "round_half_even (numeral n) = numeral n"
  using round_half_even_int [of "numeral n"] by simp

lemma round_half_even_nonneg: "0 \<le> y \<Longrightarrow> 0 \<le> round_half_even y"
  by (simp add: round_half_even_def Let_def)

lemma Float64_round_binade:
  assumes "2 powr real_of_int e \<le> \<bar>x\<bar>" and "\<bar>x\<bar> < 2 powr (real_of_int e + 1)"
  shows "Float64_round x =
    real_of_int (round_half_even (x / 2 powr (real_of_int e - 52))) * 2 powr (real_of_int e - 52)"
proof -
  have pos: "0 < \<bar>x\<bar>" using assms(1) by (smt (verit) powr_gt_zero)
  then have nz: "x \<noteq> 0" by simp
  have "\<lfloor>log 2 \<bar>x\<bar>\<rfloor> = e"
    using assms pos by (simp add: floor_log_eq_powr_iff)
  then show ?thesis using nz by (simp add: Float64_round_def Let_def)
qed

lemma powr_int_minus_nat: "(2 :: real) powr (real_of_int (52 - int k) - 52) = 1 / 2 ^ k"
proof -
  have "real_of_int (52 - int k) - 52 = - real k" by simp
  then show ?thesis
    by (simp only: powr_minus powr_realpow [of 2 k, simplified] inverse_eq_divide)
qed

lemma Float64_round_below:
  assumes "2 ^ 52 \<le> \<bar>x\<bar> * 2 ^ k" and "\<bar>x\<bar> * 2 ^ k < 2 ^ 53"
  shows "Float64_round x = real_of_int (round_half_even (x * 2 ^ k)) / 2 ^ k"
proof -
  have p: "(2 :: real) powr real_of_int (52 - int k) = 2 ^ 52 / 2 ^ k"
  proof -
    have "(2 :: real) powr real_of_int (52 - int k) = 2 powr (52 - real k)" by simp
    also have "\<dots> = 2 powr 52 / 2 powr real k" by (rule powr_diff)
    also have "\<dots> = 2 ^ 52 / 2 ^ k" by (simp add: powr_realpow)
    finally show ?thesis .
  qed
  have q: "(2 :: real) powr (real_of_int (52 - int k) + 1) = 2 ^ 53 / 2 ^ k"
  proof -
    have "(2 :: real) powr (real_of_int (52 - int k) + 1) = 2 powr (53 - real k)" by simp
    also have "\<dots> = 2 powr 53 / 2 powr real k" by (rule powr_diff)
    also have "\<dots> = 2 ^ 53 / 2 ^ k" by (simp add: powr_realpow)
    finally show ?thesis .
  qed
  have a: "2 powr real_of_int (52 - int k) \<le> \<bar>x\<bar>"
    unfolding p using assms(1) by (simp add: field_simps)
  have b: "\<bar>x\<bar> < 2 powr (real_of_int (52 - int k) + 1)"
    unfolding q using assms(2) by (simp add: field_simps)
  show ?thesis
    unfolding Float64_round_binade [OF a b] powr_int_minus_nat by simp
qed

lemma Float64_round_nonneg:
  assumes "0 \<le> x"
  shows "0 \<le> Float64_round x"
proof (cases "x = 0")
  case True
  then show ?thesis by (simp add: Float64_round_def)
next
  case False
  have "0 \<le> x / 2 powr (real_of_int \<lfloor>log 2 \<bar>x\<bar>\<rfloor> - 52)"
    using assms by simp
  then have "0 \<le> round_half_even (x / 2 powr (real_of_int \<lfloor>log 2 \<bar>x\<bar>\<rfloor> - 52))"
    by (rule round_half_even_nonneg)
  then show ?thesis
    using False by (simp add: Float64_round_def Let_def)
qed

lemma Float64_round_nat:
  assumes "k \<le> 2 ^ 53"
  shows "Float64_round (real k) = real k"
proof (cases "k = 0")
  case True
  then show ?thesis by (simp add: Float64_round_def)
next
  case False
  show ?thesis
  proof (cases "k < 2 ^ 52")
    case True
    define n where "n = nat \<lfloor>log 2 (real k)\<rfloor>"
    have kpos: "0 < k" using False by simp
    have fl0: "0 \<le> \<lfloor>log 2 (real k)\<rfloor>"
      using kpos by (simp add: zero_le_log_cancel_iff)
    have fl: "\<lfloor>log 2 (real k)\<rfloor> = int n" using fl0 by (simp add: n_def)
    have bounds: "2 ^ n \<le> k \<and> k < 2 ^ (n + 1)"
      using floor_log_nat_eq_powr_iff [of 2 k n] kpos fl by simp
    have lt: "2 ^ n < (2 :: nat) ^ 52" using bounds True by linarith
    have n52: "n < 52"
    proof (rule ccontr)
      assume "\<not> n < 52"
      then have "(2 :: nat) ^ 52 \<le> 2 ^ n" by (intro power_increasing) simp_all
      then show False using lt by linarith
    qed
    define j where "j = 52 - n"
    have nj: "n + j = 52" using n52 by (simp add: j_def)
    have lo: "2 ^ 52 \<le> \<bar>real k\<bar> * 2 ^ j"
    proof -
      have "(2 :: nat) ^ 52 = 2 ^ n * 2 ^ j" by (simp flip: power_add add: nj)
      also have "\<dots> \<le> k * 2 ^ j" using bounds by simp
      finally have "(2 :: nat) ^ 52 \<le> k * 2 ^ j" .
      then have "real ((2 :: nat) ^ 52) \<le> real (k * 2 ^ j)" by (simp only: of_nat_le_iff)
      then show ?thesis by simp
    qed
    have hi: "\<bar>real k\<bar> * 2 ^ j < 2 ^ 53"
    proof -
      have "k * 2 ^ j < 2 ^ (n + 1) * 2 ^ j" using bounds by simp
      also have "\<dots> = (2 :: nat) ^ 53"
      proof -
        have "n + 1 + j = 53" using nj by simp
        then have "(2 :: nat) ^ (n + 1 + j) = 2 ^ 53" by (simp only:)
        then show ?thesis by (simp only: power_add)
      qed
      finally have "real (k * 2 ^ j) < real ((2 :: nat) ^ 53)" by (simp only: of_nat_less_iff)
      then show ?thesis by simp
    qed
    have "real k * 2 ^ j = real_of_int (int k * 2 ^ j)" by simp
    then have "round_half_even (real k * 2 ^ j) = int k * 2 ^ j"
      by (simp only: round_half_even_int)
    then show ?thesis
      unfolding Float64_round_below [OF lo hi] by simp
  next
    case False
    show ?thesis
    proof (cases "k = 2 ^ 53")
      case True
      have a: "2 powr real_of_int 53 \<le> \<bar>real k\<bar>" by (simp add: True)
      have b: "\<bar>real k\<bar> < 2 powr (real_of_int 53 + 1)" by (simp add: True)
      have "round_half_even (real k / 2) = 2 ^ 52"
        using round_half_even_int [of "2 ^ 52"] by (simp add: True)
      then show ?thesis
        unfolding Float64_round_binade [OF a b] by (simp add: True)
    next
      case F2: False
      have lo: "2 ^ 52 \<le> \<bar>real k\<bar> * 2 ^ 0" using False by simp
      have "k < 2 ^ 53" using assms F2 by simp
      then have "real k < real ((2 :: nat) ^ 53)" by (simp only: of_nat_less_iff)
      then have hi: "\<bar>real k\<bar> * 2 ^ 0 < 2 ^ 53" by simp
      have "round_half_even (real k) = int k"
        using round_half_even_int [of "int k"] by simp
      then show ?thesis
        unfolding Float64_round_below [OF lo hi] by simp
    qed
  qed
qed

lemma Float64_round_dyadic:
  assumes "x = real_of_int m / 2 ^ k" and "2 ^ 52 \<le> \<bar>m\<bar>" and "\<bar>m\<bar> < 2 ^ 53"
  shows "Float64_round x = x"
proof -
  have xk: "x * 2 ^ k = real_of_int m"
    by (simp add: assms(1))
  have "\<bar>x\<bar> * 2 ^ k = \<bar>x * 2 ^ k\<bar>"
    by (simp add: abs_mult)
  then have ax: "\<bar>x\<bar> * 2 ^ k = real_of_int \<bar>m\<bar>"
    by (simp add: xk)
  have "real_of_int (2 ^ 52) \<le> real_of_int \<bar>m\<bar>"
    using assms(2) by (simp only: of_int_le_iff)
  then have lo: "2 ^ 52 \<le> \<bar>x\<bar> * 2 ^ k"
    by (simp add: ax)
  have "real_of_int \<bar>m\<bar> < real_of_int (2 ^ 53)"
    using assms(3) by (simp only: of_int_less_iff)
  then have hi: "\<bar>x\<bar> * 2 ^ k < 2 ^ 53"
    by (simp add: ax)
  show ?thesis
    unfolding Float64_round_below [OF lo hi] xk round_half_even_int
    by (simp add: assms(1))
qed

lemma unat_UInt64_of_Float64:
  assumes "0 \<le> x" and "x < 2 ^ 64"
  shows "unat (UInt64_of_Float64 x) = nat \<lfloor>x\<rfloor>"
proof -
  have lo: "0 \<le> \<lfloor>x\<rfloor>" using assms(1) by simp
  have "\<lfloor>x\<rfloor> < 2 ^ 64" using assms(2) by (simp add: floor_less_iff)
  then have "nat \<lfloor>x\<rfloor> < 2 ^ LENGTH(64)" using lo by (simp add: nat_less_iff)
  then have "unat (word_of_nat (nat \<lfloor>x\<rfloor>) :: 64 word) = nat \<lfloor>x\<rfloor>"
    by (simp only: unat_of_nat mod_less)
  then show ?thesis
    by (simp only: UInt64_of_Float64_def word_of_int_nat [OF lo])
qed

lemma unat_inc_64:
  fixes w :: "64 word"
  assumes "unat w + 1 < 2 ^ 64"
  shows "unat (w + 1) = unat w + 1"
proof -
  have "unat w + unat (1 :: 64 word) < 2 ^ LENGTH(64)" using assms by simp
  then have "unat (w + 1) = unat w + unat (1 :: 64 word)"
    by (simp only: unat_add_lem)
  then show ?thesis by simp
qed

lemma unat_times_frames:
  fixes w :: "64 word"
  assumes "unat w * kLoopbackRingBufferFrameSize < 2 ^ 64"
  shows "unat (w * of_nat kLoopbackRingBufferFrameSize) = unat w * kLoopbackRingBufferFrameSize"
proof -
  have f: "unat (of_nat kLoopbackRingBufferFrameSize :: 64 word) = kLoopbackRingBufferFrameSize"
    by (simp add: kLoopbackRingBufferFrameSize_def)
  have "unat w * unat (of_nat kLoopbackRingBufferFrameSize :: 64 word) < 2 ^ LENGTH(64)"
    using assms by (simp add: f)
  then have "unat (w * of_nat kLoopbackRingBufferFrameSize) =
      unat w * unat (of_nat kLoopbackRingBufferFrameSize :: 64 word)"
    by (simp only: unat_mult_lem)
  then show ?thesis by (simp only: f)
qed

lemma word_add_le_64:
  fixes a w now :: "64 word"
  assumes "unat a + unat w < 2 ^ 64"
  shows "a + w \<le> now \<longleftrightarrow> unat a + unat w \<le> unat now"
proof -
  have "unat a + unat w < 2 ^ LENGTH(64)" using assms by simp
  then have "unat (a + w) = unat a + unat w"
    by (simp only: unat_add_lem)
  then show ?thesis by (simp add: word_le_nat_alt)
qed

lemma Float64_of_UInt64_exact:
  assumes "unat w \<le> 2 ^ 53"
  shows "Float64_of_UInt64 w = real (unat w)"
  unfolding Float64_of_UInt64_def by (rule Float64_round_nat [OF assms])

lemma GetZeroTimeStamp_unfold:
  "GetZeroTimeStamp now d =
     (if anchorHostTime (mLoopbackTime d) +
         UInt64_of_Float64
           (Float64_mul (Float64_of_UInt64 (numberTimeStamps (mLoopbackTime d) + 1))
              (Float64_mul (hostTicksPerFrame (mLoopbackTime d)) (real kLoopbackRingBufferFrameSize)))
         \<le> now
      then
        ((Float64_of_UInt64
            ((numberTimeStamps (mLoopbackTime d) + 1) * of_nat kLoopbackRingBufferFrameSize),
          UInt64_of_Float64
            (Float64_add (Float64_of_UInt64 (anchorHostTime (mLoopbackTime d)))
               (Float64_mul (Float64_of_UInt64 (numberTimeStamps (mLoopbackTime d) + 1))
                  (Float64_mul (hostTicksPerFrame (mLoopbackTime d))
                     (real kLoopbackRingBufferFrameSize)))),
          1),
         d\<lparr>mLoopbackTime :=
             (mLoopbackTime d)\<lparr>numberTimeStamps := numberTimeStamps (mLoopbackTime d) + 1\<rparr>\<rparr>)
      else
        ((Float64_of_UInt64 (numberTimeStamps (mLoopbackTime d) * of_nat kLoopbackRingBufferFrameSize),
          UInt64_of_Float64
            (Float64_add (Float64_of_UInt64 (anchorHostTime (mLoopbackTime d)))
               (Float64_mul (Float64_of_UInt64 (numberTimeStamps (mLoopbackTime d)))
                  (Float64_mul (hostTicksPerFrame (mLoopbackTime d))
                     (real kLoopbackRingBufferFrameSize)))),
          1),
         d))"
proof (cases "anchorHostTime (mLoopbackTime d) +
         UInt64_of_Float64
           (Float64_mul (Float64_of_UInt64 (numberTimeStamps (mLoopbackTime d) + 1))
              (Float64_mul (hostTicksPerFrame (mLoopbackTime d)) (real kLoopbackRingBufferFrameSize)))
         \<le> now")
  case True
  then show ?thesis
    unfolding GetZeroTimeStamp_def Let_def
    by (simp only: if_True) simp
next
  case False
  have keep: "d\<lparr>mLoopbackTime := mLoopbackTime d\<rparr> = d"
    by simp
  from False show ?thesis
    unfolding GetZeroTimeStamp_def Let_def
    by (simp only: if_False keep)
qed

lemma GetZeroTimeStamp_step:
  fixes d :: RDC_Device and now :: "64 word"
  assumes n: "n = unat (numberTimeStamps (mLoopbackTime d))"
    and a: "a = unat (anchorHostTime (mLoopbackTime d))"
    and tpr: "tpr =
      Float64_mul (hostTicksPerFrame (mLoopbackTime d)) (real kLoopbackRingBufferFrameSize)"
    and c: "c \<longleftrightarrow>
      anchorHostTime (mLoopbackTime d) + UInt64_of_Float64 (Float64_mul (real (n + 1)) tpr) \<le> now"
    and n1: "n1 = (if c then n + 1 else n)"
    and cnt: "(n + 1) * kLoopbackRingBufferFrameSize \<le> 2 ^ 53"
  shows "GetZeroTimeStamp now d =
    ((real (n1 * kLoopbackRingBufferFrameSize),
      UInt64_of_Float64 (Float64_add (Float64_round (real a)) (Float64_mul (real n1) tpr)), 1),
     d\<lparr>mLoopbackTime := (mLoopbackTime d)\<lparr>numberTimeStamps := of_nat n1\<rparr>\<rparr>)"
proof -
  have small: "(2 :: nat) ^ 53 < 2 ^ 64" by simp
  have "n + 1 \<le> (n + 1) * kLoopbackRingBufferFrameSize"
    by (simp add: kLoopbackRingBufferFrameSize_def)
  then have n53: "n + 1 \<le> 2 ^ 53" using cnt by linarith
  then have n64: "n + 1 < 2 ^ 64" using small by linarith
  have inc: "unat (numberTimeStamps (mLoopbackTime d) + 1) = n + 1"
    using n64 unat_inc_64 [of "numberTimeStamps (mLoopbackTime d)"] by (simp only: n)
  have finc: "Float64_of_UInt64 (numberTimeStamps (mLoopbackTime d) + 1) = real (n + 1)"
    using Float64_of_UInt64_exact [of "numberTimeStamps (mLoopbackTime d) + 1"] n53
    by (simp only: inc)
  have "n \<le> 2 ^ 53" using n53 by linarith
  then have fn: "Float64_of_UInt64 (numberTimeStamps (mLoopbackTime d)) = real n"
    using Float64_of_UInt64_exact [of "numberTimeStamps (mLoopbackTime d)"]
    by (simp only: n)
  have fa: "Float64_of_UInt64 (anchorHostTime (mLoopbackTime d)) = Float64_round (real a)"
    by (simp only: Float64_of_UInt64_def a)
  have same: "word_of_nat n = numberTimeStamps (mLoopbackTime d)"
    by (simp add: n)
  have next_word: "word_of_nat (n + 1) = numberTimeStamps (mLoopbackTime d) + 1"
    by (simp add: n)
  show ?thesis
  proof (cases c)
    case True
    then have n1': "n1 = n + 1" by (simp add: n1)
    have cond: "anchorHostTime (mLoopbackTime d) +
         UInt64_of_Float64
           (Float64_mul (Float64_of_UInt64 (numberTimeStamps (mLoopbackTime d) + 1))
              (Float64_mul (hostTicksPerFrame (mLoopbackTime d)) (real kLoopbackRingBufferFrameSize)))
         \<le> now"
      using True c by (simp only: finc flip: tpr)
    have "(n + 1) * kLoopbackRingBufferFrameSize < 2 ^ 64"
      using cnt small by linarith
    then have lt64: "unat (numberTimeStamps (mLoopbackTime d) + 1) * kLoopbackRingBufferFrameSize < 2 ^ 64"
      by (simp only: inc)
    have st: "unat ((numberTimeStamps (mLoopbackTime d) + 1) * of_nat kLoopbackRingBufferFrameSize) =
        (n + 1) * kLoopbackRingBufferFrameSize"
      using unat_times_frames [OF lt64] by (simp only: inc)
    have fst': "Float64_of_UInt64
            ((numberTimeStamps (mLoopbackTime d) + 1) * of_nat kLoopbackRingBufferFrameSize) =
        real ((n + 1) * kLoopbackRingBufferFrameSize)"
      using Float64_of_UInt64_exact
        [of "(numberTimeStamps (mLoopbackTime d) + 1) * of_nat kLoopbackRingBufferFrameSize"] cnt
      by (simp only: st)
    have "GetZeroTimeStamp now d =
        ((Float64_of_UInt64
            ((numberTimeStamps (mLoopbackTime d) + 1) * of_nat kLoopbackRingBufferFrameSize),
          UInt64_of_Float64
            (Float64_add (Float64_of_UInt64 (anchorHostTime (mLoopbackTime d)))
               (Float64_mul (Float64_of_UInt64 (numberTimeStamps (mLoopbackTime d) + 1))
                  (Float64_mul (hostTicksPerFrame (mLoopbackTime d))
                     (real kLoopbackRingBufferFrameSize)))),
          1),
         d\<lparr>mLoopbackTime :=
             (mLoopbackTime d)\<lparr>numberTimeStamps := numberTimeStamps (mLoopbackTime d) + 1\<rparr>\<rparr>)"
      unfolding GetZeroTimeStamp_unfold using cond by (simp only: if_True)
    also have "\<dots> =
        ((real ((n + 1) * kLoopbackRingBufferFrameSize),
          UInt64_of_Float64 (Float64_add (Float64_round (real a)) (Float64_mul (real (n + 1)) tpr)), 1),
         d\<lparr>mLoopbackTime := (mLoopbackTime d)\<lparr>numberTimeStamps := of_nat (n + 1)\<rparr>\<rparr>)"
      by (simp only: fst' finc fa next_word flip: tpr)
    finally show ?thesis by (simp only: n1')
  next
    case False
    then have n1': "n1 = n" by (simp add: n1)
    have cond: "\<not> anchorHostTime (mLoopbackTime d) +
         UInt64_of_Float64
           (Float64_mul (Float64_of_UInt64 (numberTimeStamps (mLoopbackTime d) + 1))
              (Float64_mul (hostTicksPerFrame (mLoopbackTime d)) (real kLoopbackRingBufferFrameSize)))
         \<le> now"
      using False c by (simp only: finc simp_thms flip: tpr)
    have "n * kLoopbackRingBufferFrameSize \<le> (n + 1) * kLoopbackRingBufferFrameSize" by simp
    then have le53: "n * kLoopbackRingBufferFrameSize \<le> 2 ^ 53"
      using cnt by linarith
    then have "n * kLoopbackRingBufferFrameSize < 2 ^ 64"
      using small by linarith
    then have "unat (numberTimeStamps (mLoopbackTime d)) * kLoopbackRingBufferFrameSize < 2 ^ 64"
      by (simp only: n)
    then have st: "unat (numberTimeStamps (mLoopbackTime d) * of_nat kLoopbackRingBufferFrameSize) =
        n * kLoopbackRingBufferFrameSize"
      using unat_times_frames [of "numberTimeStamps (mLoopbackTime d)"] by (simp only: n)
    have fst': "Float64_of_UInt64
            (numberTimeStamps (mLoopbackTime d) * of_nat kLoopbackRingBufferFrameSize) =
        real (n * kLoopbackRingBufferFrameSize)"
      using Float64_of_UInt64_exact
        [of "numberTimeStamps (mLoopbackTime d) * of_nat kLoopbackRingBufferFrameSize"] le53
      by (simp only: st)
    have keep: "d\<lparr>mLoopbackTime := (mLoopbackTime d)\<lparr>numberTimeStamps := of_nat n\<rparr>\<rparr> = d"
      by (simp add: n)
    have "GetZeroTimeStamp now d =
        ((Float64_of_UInt64 (numberTimeStamps (mLoopbackTime d) * of_nat kLoopbackRingBufferFrameSize),
          UInt64_of_Float64
            (Float64_add (Float64_of_UInt64 (anchorHostTime (mLoopbackTime d)))
               (Float64_mul (Float64_of_UInt64 (numberTimeStamps (mLoopbackTime d)))
                  (Float64_mul (hostTicksPerFrame (mLoopbackTime d))
                     (real kLoopbackRingBufferFrameSize)))),
          1),
         d)"
      unfolding GetZeroTimeStamp_unfold using cond by (simp only: if_False)
    also have "\<dots> =
        ((real (n * kLoopbackRingBufferFrameSize),
          UInt64_of_Float64 (Float64_add (Float64_round (real a)) (Float64_mul (real n) tpr)), 1),
         d\<lparr>mLoopbackTime := (mLoopbackTime d)\<lparr>numberTimeStamps := of_nat n\<rparr>\<rparr>)"
      unfolding keep by (simp only: fst' fn fa flip: tpr)
    finally show ?thesis by (simp only: n1')
  qed
qed

lemma GetZeroTimeStamp_condition:
  fixes anchor now :: "64 word"
  assumes a: "a = unat anchor" and "0 \<le> off" and "real a + off < 2 ^ 64"
  shows "anchor + UInt64_of_Float64 off \<le> now \<longleftrightarrow> int a + \<lfloor>off\<rfloor> \<le> int (unat now)"
proof -
  have a0: "0 \<le> real a" by simp
  have off64: "off < 2 ^ 64" using assms(3) a0 by linarith
  have offw: "unat (UInt64_of_Float64 off) = nat \<lfloor>off\<rfloor>"
    by (rule unat_UInt64_of_Float64 [OF assms(2) off64])
  have "real a + real_of_int \<lfloor>off\<rfloor> < 2 ^ 64"
    using assms(3) of_int_floor_le [of off] by linarith
  moreover have "real (a + nat \<lfloor>off\<rfloor>) = real a + real_of_int \<lfloor>off\<rfloor>"
    using assms(2) by simp
  ultimately have "real (a + nat \<lfloor>off\<rfloor>) < 2 ^ 64"
    by (simp only:)
  then have sum64: "a + nat \<lfloor>off\<rfloor> < 2 ^ 64"
    by (simp only: of_nat_less_numeral_power_cancel_iff)
  have w64: "unat anchor + unat (UInt64_of_Float64 off) < 2 ^ 64"
    using sum64 by (simp only: offw a)
  have "anchor + UInt64_of_Float64 off \<le> now \<longleftrightarrow> a + nat \<lfloor>off\<rfloor> \<le> unat now"
    by (simp only: word_add_le_64 [OF w64] offw a)
  also have "\<dots> \<longleftrightarrow> int (a + nat \<lfloor>off\<rfloor>) \<le> int (unat now)"
    by (simp only: of_nat_le_iff)
  also have "int (a + nat \<lfloor>off\<rfloor>) = int a + \<lfloor>off\<rfloor>"
    using assms(2) by simp
  finally show ?thesis .
qed

lemma Float64_mul_nonneg: "0 \<le> x \<Longrightarrow> 0 \<le> y \<Longrightarrow> 0 \<le> Float64_mul x y"
  unfolding Float64_mul_def by (rule Float64_round_nonneg) simp

lemma Float64_add_nonneg: "0 \<le> x \<Longrightarrow> 0 \<le> y \<Longrightarrow> 0 \<le> Float64_add x y"
  unfolding Float64_add_def by (rule Float64_round_nonneg) simp

lemma GetZeroTimeStamp_core:
  fixes d :: RDC_Device and now :: "64 word"
  assumes n: "n = unat (numberTimeStamps (mLoopbackTime d))"
    and a: "a = unat (anchorHostTime (mLoopbackTime d))"
    and tpr: "tpr =
      Float64_mul (hostTicksPerFrame (mLoopbackTime d)) (real kLoopbackRingBufferFrameSize)"
    and off: "off = Float64_mul (real (n + 1)) tpr"
    and n1: "n1 = (if int a + \<lfloor>off\<rfloor> \<le> int (unat now) then n + 1 else n)"
    and tpf: "0 \<le> hostTicksPerFrame (mLoopbackTime d)"
    and cnt: "(n + 1) * kLoopbackRingBufferFrameSize \<le> 2 ^ 53"
    and nxt: "real a + off < 2 ^ 64"
  shows "GetZeroTimeStamp now d =
    ((real (n1 * kLoopbackRingBufferFrameSize),
      UInt64_of_Float64 (Float64_add (Float64_round (real a)) (Float64_mul (real n1) tpr)), 1),
     d\<lparr>mLoopbackTime := (mLoopbackTime d)\<lparr>numberTimeStamps := of_nat n1\<rparr>\<rparr>)"
proof -
  have tpr0: "0 \<le> tpr"
    unfolding tpr using tpf by (intro Float64_mul_nonneg) simp_all
  have off0: "0 \<le> off"
    unfolding off using tpr0 by (intro Float64_mul_nonneg) simp_all
  define c where "c \<longleftrightarrow>
      anchorHostTime (mLoopbackTime d) + UInt64_of_Float64 (Float64_mul (real (n + 1)) tpr) \<le> now"
  have "c \<longleftrightarrow> int a + \<lfloor>off\<rfloor> \<le> int (unat now)"
    unfolding c_def using GetZeroTimeStamp_condition [OF a off0 nxt, of now] by (simp only: off)
  then have n1': "n1 = (if c then n + 1 else n)"
    by (simp only: n1)
  show ?thesis
    by (rule GetZeroTimeStamp_step [OF n a tpr c_def n1' cnt])
qed

lemma GetZeroTimeStamp_count:
  fixes d :: RDC_Device and now :: "64 word"
  assumes n: "n = unat (numberTimeStamps (mLoopbackTime d))"
    and cnt: "(n + 1) * kLoopbackRingBufferFrameSize \<le> 2 ^ 53"
  shows "\<exists>n1. n \<le> n1 \<and> fst (fst (GetZeroTimeStamp now d)) = real (n1 * kLoopbackRingBufferFrameSize)"
proof -
  define a where "a = unat (anchorHostTime (mLoopbackTime d))"
  define tpr where "tpr =
      Float64_mul (hostTicksPerFrame (mLoopbackTime d)) (real kLoopbackRingBufferFrameSize)"
  define c where "c \<longleftrightarrow>
      anchorHostTime (mLoopbackTime d) + UInt64_of_Float64 (Float64_mul (real (n + 1)) tpr) \<le> now"
  define n1 where "n1 = (if c then n + 1 else n)"
  have "fst (fst (GetZeroTimeStamp now d)) = real (n1 * kLoopbackRingBufferFrameSize)"
    by (simp only: GetZeroTimeStamp_step [OF n a_def tpr_def c_def n1_def cnt] fst_conv)
  moreover have "n \<le> n1" by (simp add: n1_def)
  ultimately show ?thesis by blast
qed

lemma Float64_round_0 [simp]: "Float64_round 0 = 0"
  by (simp add: Float64_round_def)

lemma Float64_div_44100: "Float64_div 1000000000 44100 = 6233059114376417 / 2 ^ 38"
proof -
  have a: "2 ^ 52 \<le> \<bar>1000000000 / 44100 :: real\<bar> * 2 ^ 38" by simp
  have b: "\<bar>1000000000 / 44100 :: real\<bar> * 2 ^ 38 < 2 ^ 53" by simp
  show ?thesis
    unfolding Float64_div_def Float64_round_below [OF a b]
    by (simp add: round_half_even_def)
qed

lemma Float64_div_48000: "Float64_div 1000000000 48000 = 5726623061333333 / 2 ^ 38"
proof -
  have a: "2 ^ 52 \<le> \<bar>1000000000 / 48000 :: real\<bar> * 2 ^ 38" by simp
  have b: "\<bar>1000000000 / 48000 :: real\<bar> * 2 ^ 38 < 2 ^ 53" by simp
  show ?thesis
    unfolding Float64_div_def Float64_round_below [OF a b]
    by (simp add: round_half_even_def)
qed

lemma example_device_rate: "GetSampleRate example_device = 44100"
  by (simp add: example_device_def RDC_Device_new_def SetSampleRate_def GetSampleRate_def
      kSampleRateDefault_def InitLoopback_def Let_def)

lemma example_default_running_device_clock:
  "mLoopbackTime example_default_running_device =
     \<lparr>hostTicksPerFrame = 6233059114376417 / 2 ^ 38, numberTimeStamps = 0, anchorHostTime = 0\<rparr>"
  by (simp add: example_default_running_device_def example_device_def HW_StartIO_def
      RDC_Device_new_def SetSampleRate_def GetSampleRate_def kSampleRateDefault_def
      InitLoopback_def Let_def Float64_div_44100)

lemma example_48k_device_clock:
  "mLoopbackTime example_48k_device =
     \<lparr>hostTicksPerFrame = 5726623061333333 / 2 ^ 38, numberTimeStamps = 2, anchorHostTime = 0\<rparr>"
  by (simp add: example_48k_device_def HW_StartIO_def SetSampleRate_def example_device_rate
      InitLoopback_def Let_def Float64_div_48000)

lemma ticks_per_ring_44100:
  "Float64_mul (6233059114376417 / 2 ^ 38) (real kLoopbackRingBufferFrameSize) =
     6233059114376417 / 2 ^ 24"
proof -
  have "Float64_round (6233059114376417 / 2 ^ 38 * 16384) = 6233059114376417 / 2 ^ 38 * 16384"
    by (rule Float64_round_dyadic [where m = 6233059114376417 and k = 24]) simp_all
  then show ?thesis
    by (simp add: Float64_mul_def kLoopbackRingBufferFrameSize_def)
qed

lemma ticks_per_ring_48000:
  "Float64_mul (5726623061333333 / 2 ^ 38) (real kLoopbackRingBufferFrameSize) =
     5726623061333333 / 2 ^ 24"
proof -
  have "Float64_round (5726623061333333 / 2 ^ 38 * 16384) = 5726623061333333 / 2 ^ 38 * 16384"
    by (rule Float64_round_dyadic [where m = 5726623061333333 and k = 24]) simp_all
  then show ?thesis
    by (simp add: Float64_mul_def kLoopbackRingBufferFrameSize_def)
qed

lemma offset_1_44100:
  "Float64_mul (real (0 + 1)) (6233059114376417 / 2 ^ 24) = 6233059114376417 / 2 ^ 24"
proof -
  have "Float64_round (6233059114376417 / 2 ^ 24) = 6233059114376417 / 2 ^ 24"
    by (rule Float64_round_dyadic [where m = 6233059114376417 and k = 24]) simp_all
  then show ?thesis
    by (simp add: Float64_mul_def)
qed

lemma offset_3_48000:
  "Float64_mul (real (2 + 1)) (5726623061333333 / 2 ^ 24) = 1024000000"
proof -
  have a: "2 ^ 52 \<le> \<bar>3 * (5726623061333333 / 2 ^ 24) :: real\<bar> * 2 ^ 23" by simp
  have b: "\<bar>3 * (5726623061333333 / 2 ^ 24) :: real\<bar> * 2 ^ 23 < 2 ^ 53" by simp
  have "Float64_round (3 * (5726623061333333 / 2 ^ 24)) = 1024000000"
    unfolding Float64_round_below [OF a b]
    by (simp add: round_half_even_def)
  then show ?thesis
    by (simp add: Float64_mul_def)
qed

lemma host_time_1_44100:
  "Float64_add (Float64_round (real 0)) (Float64_mul (real 1) (6233059114376417 / 2 ^ 24)) =
     6233059114376417 / 2 ^ 24"
proof -
  have r: "Float64_round (6233059114376417 / 16777216) = 6233059114376417 / 16777216"
    by (rule Float64_round_dyadic [where m = 6233059114376417 and k = 24]) simp_all
  show ?thesis
    by (simp add: Float64_mul_def Float64_add_def r)
qed

lemma host_time_2_48000:
  "Float64_add (Float64_round (real 0)) (Float64_mul (real 2) (5726623061333333 / 2 ^ 24)) =
     5726623061333333 / 2 ^ 23"
proof -
  have r: "Float64_round (5726623061333333 / 8388608) = 5726623061333333 / 8388608"
    by (rule Float64_round_dyadic [where m = 5726623061333333 and k = 23]) simp_all
  show ?thesis
    by (simp add: Float64_mul_def Float64_add_def r)
qed

lemma UInt64_of_Float64_371519274:
  "UInt64_of_Float64 (6233059114376417 / 2 ^ 24) = 371519274"
  by (simp add: UInt64_of_Float64_def)

text \<open>
  C7 as stated fails where the tick offset of the next time stamp is not a whole number. The
  device runs at its default rate on a host clock of \<open>10^9\<close> ticks per second, so the ticks
  per frame are the \<open>Float64\<close> nearest to \<open>10^9 / 44100\<close>, which is \<open>6233059114376417 / 2^38\<close>;
  the anchor and the count are 0 and the current host time is 371519274. The condition of the
  claim, anchor + (count + 1) \<times> ticksPerFrame \<times> framesPerRing \<le> now, is false
  (\<open>371519274.37\<dots> > 371519274\<close>), yet the count is incremented: the code drops the fraction
  of the offset before it adds the anchor. The host time returned for the new count is
  371519274, not anchor + count \<times> ticksPerFrame \<times> framesPerRing.
\<close>

theorem GetZeroTimeStamp_fraction_dropped:
  "mLoopbackTime example_default_running_device =
     \<lparr>hostTicksPerFrame = 6233059114376417 / 2 ^ 38, numberTimeStamps = 0, anchorHostTime = 0\<rparr> \<and>
   \<not> (real (unat (0 :: 64 word)) +
        (real (unat (0 :: 64 word)) + 1) * (6233059114376417 / 2 ^ 38) *
          real kLoopbackRingBufferFrameSize
        \<le> real (unat (371519274 :: 64 word))) \<and>
   numberTimeStamps (mLoopbackTime (snd (GetZeroTimeStamp 371519274 example_default_running_device))) = 1 \<and>
   fst (GetZeroTimeStamp 371519274 example_default_running_device) = (16384, 371519274, 1) \<and>
   real (unat (0 :: 64 word)) + 1 * (6233059114376417 / 2 ^ 38) * real kLoopbackRingBufferFrameSize
     \<noteq> real (unat (371519274 :: 64 word))"
proof -
  have n: "(0 :: nat) = unat (numberTimeStamps (mLoopbackTime example_default_running_device))"
    and a: "(0 :: nat) = unat (anchorHostTime (mLoopbackTime example_default_running_device))"
    and tpf: "0 \<le> hostTicksPerFrame (mLoopbackTime example_default_running_device)"
    by (simp_all add: example_default_running_device_clock)
  have tpr: "(6233059114376417 / 2 ^ 24 :: real) =
      Float64_mul (hostTicksPerFrame (mLoopbackTime example_default_running_device))
        (real kLoopbackRingBufferFrameSize)"
    by (simp only: example_default_running_device_clock LoopbackTime.select_convs
        ticks_per_ring_44100)
  have off: "(6233059114376417 / 2 ^ 24 :: real) =
      Float64_mul (real (0 + 1)) (6233059114376417 / 2 ^ 24)"
    by (rule offset_1_44100 [symmetric])
  have n1: "(1 :: nat) =
      (if int 0 + \<lfloor>6233059114376417 / 2 ^ 24 :: real\<rfloor> \<le> int (unat (371519274 :: 64 word))
       then 0 + 1 else 0)"
    by simp
  have cnt: "(0 + 1) * kLoopbackRingBufferFrameSize \<le> 2 ^ 53"
    by (simp add: kLoopbackRingBufferFrameSize_def)
  have nxt: "real 0 + (6233059114376417 / 2 ^ 24 :: real) < 2 ^ 64"
    by simp
  have call: "GetZeroTimeStamp 371519274 example_default_running_device =
    ((real (1 * kLoopbackRingBufferFrameSize), 371519274, 1),
     example_default_running_device
       \<lparr>mLoopbackTime :=
          (mLoopbackTime example_default_running_device)\<lparr>numberTimeStamps := of_nat 1\<rparr>\<rparr>)"
    using GetZeroTimeStamp_core [OF n a tpr off n1 tpf cnt nxt]
    by (simp only: host_time_1_44100 UInt64_of_Float64_371519274)
  show ?thesis
    by (simp add: call example_default_running_device_clock kLoopbackRingBufferFrameSize_def)
qed

text \<open>
  C7, amended. \<open>_HW_StartIO\<close> sets the anchor to the current host time and the count of time
  stamps to 0. Write \<open>fl\<close> for the rounding of a \<open>Float64\<close> operation,
  ticksPerRing = \<open>fl\<close>(ticksPerFrame \<times> framesPerRing) and
  offset = \<open>fl\<close>((count + 1) \<times> ticksPerRing). For a call of \<open>GetZeroTimeStamp\<close> with ticks per
  frame that are not negative, while the sample time of the next two time stamps stays within
  \<open>2^53\<close> and the host times stay below \<open>2^64\<close>: the count is incremented by exactly 1 if
  anchor + \<open>\<lfloor>\<close>offset\<open>\<rfloor>\<close> \<le> now and is unchanged otherwise; the anchor and the ticks per frame
  are unchanged; the call returns sampleTime = count \<times> framesPerRing,
  hostTime = \<open>\<lfloor>fl\<close>(\<open>fl\<close>(anchor) + \<open>fl\<close>(count \<times> ticksPerRing))\<open>\<rfloor>\<close> for the new count, and seed = 1;
  and the sample time returned by the next call, at any host time, is not smaller.
\<close>

theorem GetZeroTimeStamp_Float64:
  assumes n: "n = unat (numberTimeStamps (mLoopbackTime d))"
    and a: "a = unat (anchorHostTime (mLoopbackTime d))"
    and tpr: "tpr =
      Float64_mul (hostTicksPerFrame (mLoopbackTime d)) (real kLoopbackRingBufferFrameSize)"
    and off: "off = Float64_mul (real (n + 1)) tpr"
    and n1: "n1 = (if int a + \<lfloor>off\<rfloor> \<le> int (unat now) then n + 1 else n)"
    and host: "host = Float64_add (Float64_round (real a)) (Float64_mul (real n1) tpr)"
    and tpf: "0 \<le> hostTicksPerFrame (mLoopbackTime d)"
    and cnt: "(n + 2) * kLoopbackRingBufferFrameSize \<le> 2 ^ 53"
    and nxt: "real a + off < 2 ^ 64"
    and h64: "host < 2 ^ 64"
  shows "mLoopbackTime (HW_StartIO t d) =
           (mLoopbackTime d)\<lparr>numberTimeStamps := 0, anchorHostTime := t\<rparr> \<and>
         unat (numberTimeStamps (mLoopbackTime (snd (GetZeroTimeStamp now d)))) = n1 \<and>
         anchorHostTime (mLoopbackTime (snd (GetZeroTimeStamp now d))) =
           anchorHostTime (mLoopbackTime d) \<and>
         hostTicksPerFrame (mLoopbackTime (snd (GetZeroTimeStamp now d))) =
           hostTicksPerFrame (mLoopbackTime d) \<and>
         fst (fst (GetZeroTimeStamp now d)) = real (n1 * kLoopbackRingBufferFrameSize) \<and>
         unat (fst (snd (fst (GetZeroTimeStamp now d)))) = nat \<lfloor>host\<rfloor> \<and>
         snd (snd (fst (GetZeroTimeStamp now d))) = 1 \<and>
         fst (fst (GetZeroTimeStamp now d))
           \<le> fst (fst (GetZeroTimeStamp now2 (snd (GetZeroTimeStamp now d))))"
proof -
  have tpr0: "0 \<le> tpr"
    unfolding tpr using tpf by (intro Float64_mul_nonneg) simp_all
  have n1_le: "n1 \<le> n + 1" by (simp add: n1)
  have cnt1: "(n + 1) * kLoopbackRingBufferFrameSize \<le> 2 ^ 53"
  proof -
    have "(n + 1) * kLoopbackRingBufferFrameSize \<le> (n + 2) * kLoopbackRingBufferFrameSize"
      by (rule mult_le_mono1) simp
    then show ?thesis using cnt by linarith
  qed
  have first: "GetZeroTimeStamp now d =
    ((real (n1 * kLoopbackRingBufferFrameSize), UInt64_of_Float64 host, 1),
     d\<lparr>mLoopbackTime := (mLoopbackTime d)\<lparr>numberTimeStamps := of_nat n1\<rparr>\<rparr>)"
    unfolding host by (rule GetZeroTimeStamp_core [OF n a tpr off n1 tpf cnt1 nxt])
  let ?d1 = "d\<lparr>mLoopbackTime := (mLoopbackTime d)\<lparr>numberTimeStamps := of_nat n1\<rparr>\<rparr>"
  have "n + 1 \<le> (n + 1) * kLoopbackRingBufferFrameSize"
    by (simp add: kLoopbackRingBufferFrameSize_def)
  then have "n + 1 \<le> 2 ^ 53" using cnt1 by linarith
  moreover have "(2 :: nat) ^ 53 < 2 ^ 64" by simp
  ultimately have "n1 < 2 ^ 64" using n1_le by linarith
  then have "n1 < 2 ^ LENGTH(64)" by simp
  then have un1: "unat (word_of_nat n1 :: 64 word) = n1"
    by (simp only: unat_of_nat mod_less)
  have h0: "0 \<le> host"
    unfolding host using tpr0
    by (intro Float64_add_nonneg Float64_mul_nonneg Float64_round_nonneg) simp_all
  have host_time: "unat (UInt64_of_Float64 host) = nat \<lfloor>host\<rfloor>"
    by (rule unat_UInt64_of_Float64 [OF h0 h64])
  have n': "n1 = unat (numberTimeStamps (mLoopbackTime ?d1))"
    by (simp add: un1)
  have cnt2: "(n1 + 1) * kLoopbackRingBufferFrameSize \<le> 2 ^ 53"
  proof -
    have "(n1 + 1) * kLoopbackRingBufferFrameSize \<le> (n + 2) * kLoopbackRingBufferFrameSize"
      using n1_le by (intro mult_le_mono1) simp
    then show ?thesis using cnt by linarith
  qed
  obtain n2 where n2: "n1 \<le> n2"
    and second: "fst (fst (GetZeroTimeStamp now2 ?d1)) = real (n2 * kLoopbackRingBufferFrameSize)"
    using GetZeroTimeStamp_count [OF n' cnt2, of now2] by blast
  have "n1 * kLoopbackRingBufferFrameSize \<le> n2 * kLoopbackRingBufferFrameSize"
    using n2 by (rule mult_le_mono1)
  then have later: "real (n1 * kLoopbackRingBufferFrameSize) \<le> real (n2 * kLoopbackRingBufferFrameSize)"
    by (simp only: of_nat_le_iff)
  have start: "mLoopbackTime (HW_StartIO t d) =
           (mLoopbackTime d)\<lparr>numberTimeStamps := 0, anchorHostTime := t\<rparr>"
    by (simp add: HW_StartIO_def)
  have snd1: "snd (GetZeroTimeStamp now d) = ?d1"
    by (simp only: first snd_conv)
  show ?thesis
    unfolding snd1 second
    using start later host_time un1
    by (simp add: first)
qed

theorem GetZeroTimeStamp_Float64_witness:
  "(2 :: nat) = unat (numberTimeStamps (mLoopbackTime example_48k_device)) \<and>
   (0 :: nat) = unat (anchorHostTime (mLoopbackTime example_48k_device)) \<and>
   (5726623061333333 / 2 ^ 24 :: real) =
     Float64_mul (hostTicksPerFrame (mLoopbackTime example_48k_device))
       (real kLoopbackRingBufferFrameSize) \<and>
   (1024000000 :: real) = Float64_mul (real (2 + 1)) (5726623061333333 / 2 ^ 24) \<and>
   (2 :: nat) = (if int 0 + \<lfloor>1024000000 :: real\<rfloor> \<le> int (unat (1023999999 :: 64 word))
                 then 2 + 1 else 2) \<and>
   (5726623061333333 / 2 ^ 23 :: real) =
     Float64_add (Float64_round (real 0)) (Float64_mul (real 2) (5726623061333333 / 2 ^ 24)) \<and>
   0 \<le> hostTicksPerFrame (mLoopbackTime example_48k_device) \<and>
   (2 + 2) * kLoopbackRingBufferFrameSize \<le> 2 ^ 53 \<and>
   real 0 + (1024000000 :: real) < 2 ^ 64 \<and>
   (5726623061333333 / 2 ^ 23 :: real) < 2 ^ 64 \<and>
   unat (numberTimeStamps (mLoopbackTime (snd (GetZeroTimeStamp 1023999999 example_48k_device)))) = 2 \<and>
   fst (fst (GetZeroTimeStamp 1023999999 example_48k_device)) = 32768 \<and>
   unat (fst (snd (fst (GetZeroTimeStamp 1023999999 example_48k_device)))) = 682666666 \<and>
   snd (snd (fst (GetZeroTimeStamp 1023999999 example_48k_device))) = 1 \<and>
   fst (fst (GetZeroTimeStamp 1023999999 example_48k_device))
     \<le> fst (fst (GetZeroTimeStamp 1024000000 (snd (GetZeroTimeStamp 1023999999 example_48k_device))))"
proof -
  have n: "(2 :: nat) = unat (numberTimeStamps (mLoopbackTime example_48k_device))"
    and a: "(0 :: nat) = unat (anchorHostTime (mLoopbackTime example_48k_device))"
    and tpf: "0 \<le> hostTicksPerFrame (mLoopbackTime example_48k_device)"
    by (simp_all add: example_48k_device_clock)
  have tpr: "(5726623061333333 / 2 ^ 24 :: real) =
      Float64_mul (hostTicksPerFrame (mLoopbackTime example_48k_device))
        (real kLoopbackRingBufferFrameSize)"
    by (simp only: example_48k_device_clock LoopbackTime.select_convs ticks_per_ring_48000)
  have off: "(1024000000 :: real) = Float64_mul (real (2 + 1)) (5726623061333333 / 2 ^ 24)"
    by (rule offset_3_48000 [symmetric])
  have n1: "(2 :: nat) = (if int 0 + \<lfloor>1024000000 :: real\<rfloor> \<le> int (unat (1023999999 :: 64 word))
                 then 2 + 1 else 2)"
    by simp
  have host: "(5726623061333333 / 2 ^ 23 :: real) =
      Float64_add (Float64_round (real 0)) (Float64_mul (real 2) (5726623061333333 / 2 ^ 24))"
    by (rule host_time_2_48000 [symmetric])
  have cnt: "(2 + 2) * kLoopbackRingBufferFrameSize \<le> 2 ^ 53"
    by (simp add: kLoopbackRingBufferFrameSize_def)
  have nxt: "real 0 + (1024000000 :: real) < 2 ^ 64"
    and h64: "(5726623061333333 / 2 ^ 23 :: real) < 2 ^ 64"
    by simp_all
  note t = GetZeroTimeStamp_Float64 [OF n a tpr off n1 host tpf cnt nxt h64, of 0 1024000000]
  have fl: "nat \<lfloor>5726623061333333 / 2 ^ 23 :: real\<rfloor> = 682666666"
    by simp
  have r1: "unat (numberTimeStamps (mLoopbackTime (snd (GetZeroTimeStamp 1023999999 example_48k_device)))) = 2"
    and r2: "fst (fst (GetZeroTimeStamp 1023999999 example_48k_device)) = 32768"
    and r3: "unat (fst (snd (fst (GetZeroTimeStamp 1023999999 example_48k_device)))) = 682666666"
    and r4: "snd (snd (fst (GetZeroTimeStamp 1023999999 example_48k_device))) = 1"
    and r5: "fst (fst (GetZeroTimeStamp 1023999999 example_48k_device))
     \<le> fst (fst (GetZeroTimeStamp 1024000000 (snd (GetZeroTimeStamp 1023999999 example_48k_device))))"
    using t fl by (simp_all add: kLoopbackRingBufferFrameSize_def)
  show ?thesis
    using n a tpr off n1 host tpf cnt nxt h64 r1 r2 r3 r4 r5 by simp
qed






text \<open>
  C8 as stated fails above the advertised maximum: on a device at the default rate, a sample
  rate of \<open>2 \<times> 10^9\<close> Hz, which is outside \<open>[1, 10^9]\<close>, is accepted by \<open>SetSampleRate\<close>, which
  makes it the device's rate, and by \<open>RequestSampleRate\<close>, which makes it the pending rate.
\<close>

theorem SetSampleRate_above_advertised_maximum:
  "\<not> (2000000000 :: real) \<le> 1000000000 \<and>
   fst (SetSampleRate 1000000000 2000000000 False example_device) = Inr () \<and>
   GetSampleRate (snd (SetSampleRate 1000000000 2000000000 False example_device)) = 2000000000 \<and>
   RequestSampleRate 2000000000 example_device =
     (Inr True, example_device\<lparr>mPendingSampleRate := 2000000000\<rparr>)"
  by (simp add: SetSampleRate_def RequestSampleRate_def example_device_rate Let_def)
    (simp add: GetSampleRate_def InitLoopback_def)

text \<open>
  C8, amended. \<open>RequestSampleRate\<close> and \<open>SetSampleRate\<close> accept a sample rate \<open>r\<close> if and only
  if \<open>r \<ge> 1\<close> Hz and fail with \<open>UnsupportedFormat\<close> for \<open>r < 1\<close>, changing nothing; there is
  no upper bound. An accepted rate becomes the pending rate (when it differs from the current
  one) or the device's rate. A newly constructed device has the default rate, 44100 Hz.
\<close>

theorem SampleRate_setters_lower_bound:
  "fst (RequestSampleRate r d) =
     (if r < 1 then Inl UnsupportedFormat else Inr (r \<noteq> GetSampleRate d)) \<and>
   mPendingSampleRate (snd (RequestSampleRate r d)) =
     (if r < 1 \<or> r = GetSampleRate d then mPendingSampleRate d else r) \<and>
   fst (SetSampleRate hostFrequency r force d) = (if r < 1 then Inl UnsupportedFormat else Inr ()) \<and>
   GetSampleRate (snd (SetSampleRate hostFrequency r force d)) =
     (if r < 1 then GetSampleRate d else r) \<and>
   GetSampleRate (RDC_Device_new hostFrequency d0) = 44100"
  by (simp add: RequestSampleRate_def SetSampleRate_def GetSampleRate_def InitLoopback_def
      RDC_Device_new_def kSampleRateDefault_def Let_def)

theorem SampleRate_setters_lower_bound_witness:
  "fst (SetSampleRate 1000000000 48000 False example_device) = Inr () \<and>
   GetSampleRate (snd (SetSampleRate 1000000000 48000 False example_device)) = 48000 \<and>
   fst (SetSampleRate 1000000000 (1 / 2) True example_device) = Inl UnsupportedFormat \<and>
   GetSampleRate (snd (SetSampleRate 1000000000 (1 / 2) True example_device)) = 44100 \<and>
   fst (RequestSampleRate 48000 example_device) = Inr True \<and>
   mPendingSampleRate (snd (RequestSampleRate 48000 example_device)) = 48000 \<and>
   fst (RequestSampleRate 44100 example_device) = Inr False \<and>
   fst (RequestSampleRate (1 / 2) example_device) = Inl UnsupportedFormat \<and>
   GetSampleRate example_device = 44100"
proof -
  note accepted = SampleRate_setters_lower_bound [of 48000 example_device 1000000000 False]
  note refused = SampleRate_setters_lower_bound [of "1 / 2" example_device 1000000000 True]
  note same = SampleRate_setters_lower_bound [of 44100 example_device]
  note new = SampleRate_setters_lower_bound [of 1 example_device 1000000000 False example_raw_device]
  have rate: "GetSampleRate example_device = 44100"
    using new by (simp add: example_device_def)
  show ?thesis
    using accepted refused same rate by simp
qed

end
